theory Spec2Isabelle
  imports Main
begin

section \<open>Data model of \<^verbatim>\<open>linter/file.go\<close>\<close>

text \<open>
  Line numbers are Go \<^verbatim>\<open>int\<close> values (64 bit); they are modelled as \<^typ>\<open>int\<close>.
  The only arithmetic on them is \<^verbatim>\<open>line + 1\<close> on the line of a comment of a parsed
  file, which is far from the 64 bit bound.

  \<^verbatim>\<open>token.Position\<close>: of its four fields the code of this file writes and reads only
  \<^verbatim>\<open>Filename\<close> and \<^verbatim>\<open>Line\<close> (\<^verbatim>\<open>Offset\<close> and \<^verbatim>\<open>Column\<close> stay at their zero value in
  every interval).
\<close>

record token_Position =
  Filename :: string
  Line :: int

text \<open>\<^verbatim>\<open>type enableDisableConfig struct { enabled bool; position int }\<close>\<close>

record enableDisableConfig =
  enabled :: bool
  position :: int

text \<open>
  \<^verbatim>\<open>DisabledInterval\<close>, as the composite literal of \<^verbatim>\<open>getEnabledDisabledIntervals\<close>
  builds it: \<^verbatim>\<open>RuleName\<close>, \<^verbatim>\<open>From\<close>, \<^verbatim>\<open>To\<close>.
\<close>

record DisabledInterval =
  RuleName :: string
  From :: token_Position
  To :: token_Position

text \<open>\<^verbatim>\<open>FailurePosition\<close>: the \<^verbatim>\<open>Start\<close> and \<^verbatim>\<open>End\<close> positions of a failure.\<close>

record FailurePosition =
  Start :: token_Position
  End :: token_Position

text \<open>
  \<^verbatim>\<open>Failure\<close>: the fields that \<^verbatim>\<open>lint\<close> and \<^verbatim>\<open>filterFailures\<close> touch. The node is
  represented by what the code reads of it, \<^verbatim>\<open>Node.Pos()\<close> and \<^verbatim>\<open>Node.End()\<close>;
  \<^verbatim>\<open>None\<close> is the nil node. Every other field of a failure (message, category,
  confidence) lives in the record's extension and is carried along unchanged.
\<close>

record Failure =
  Failure_RuleName :: string
  Failure_Node :: "(nat \<times> nat) option"
  Failure_Position :: FailurePosition

text \<open>
  A comment group of \<^verbatim>\<open>f.AST.Comments\<close>, as \<^verbatim>\<open>disabledIntervals\<close> sees it: its
  \<^verbatim>\<open>c.Text()\<close> and the line \<^verbatim>\<open>f.ToPosition(c.Pos()).Line\<close>.
\<close>

record CommentGroup =
  comment_Text :: string
  comment_Line :: int

text \<open>
  \<^verbatim>\<open>File\<close>: its name and the comment groups of its syntax tree, in source order.
\<close>

record File =
  file_Name :: string
  file_Comments :: "CommentGroup list"

text \<open>
  \<^verbatim>\<open>Rule\<close> is an interface with the methods \<^verbatim>\<open>Name()\<close> and \<^verbatim>\<open>Apply(file, config)\<close>;
  a rule is the pair of these two functions. The rule configuration type is a
  parameter.
\<close>

record ('cfg, 'more) Rule =
  rule_Name :: string
  rule_Apply :: "File \<Rightarrow> 'cfg \<Rightarrow> 'more Failure_scheme list"

type_synonym enabledDisabledRulesMap = "string \<rightharpoonup> enableDisableConfig list"

type_synonym disabledIntervalsMap = "string \<rightharpoonup> DisabledInterval list"

definition MaxInt32 :: int where
  "MaxInt32 = 2147483647"

section \<open>The directive grammar\<close>

text \<open>
  The regular expression of \<^verbatim>\<open>disabledIntervals\<close> is
  \<^verbatim>\<open>^\s*revive:(enable|disable)(?:-(line|next-line))?(:|\s|$)\<close>.
  It is anchored at the start of the text, so its only possible match starts at offset
  0. \<^verbatim>\<open>\s\<close> is the class of tab, newline, form feed, carriage return and space.
\<close>

definition is_space :: "char \<Rightarrow> bool" where
  "is_space c \<longleftrightarrow> c \<in> set [CHR 0x09, CHR 0x0A, CHR 0x0C, CHR 0x0D, CHR 0x20]"

fun strip_prefix :: "string \<Rightarrow> string \<Rightarrow> string option" where
  "strip_prefix [] s = Some s"
| "strip_prefix (p # ps) [] = None"
| "strip_prefix (p # ps) (c # cs) = (if p = c then strip_prefix ps cs else None)"

text \<open>\<^verbatim>\<open>(enable|disable)\<close>: the keyword and the text after it.\<close>

definition re_keyword :: "string \<Rightarrow> (string \<times> string) option" where
  "re_keyword s =
     (case strip_prefix ''enable'' s of
        Some r \<Rightarrow> Some (''enable'', r)
      | None \<Rightarrow>
         (case strip_prefix ''disable'' s of
            Some r \<Rightarrow> Some (''disable'', r)
          | None \<Rightarrow> None))"

text \<open>
  \<^verbatim>\<open>(?:-(line|next-line))?\<close>: the ways to go on, in the order the matcher tries them
  (the group first, then without it), each with the captured modifier and the text
  after it.
\<close>

definition re_modifier :: "string \<Rightarrow> (string \<times> string) list" where
  "re_modifier s =
     (case strip_prefix ''-line'' s of
        Some r \<Rightarrow> [(''line'', r)]
      | None \<Rightarrow>
         (case strip_prefix ''-next-line'' s of
            Some r \<Rightarrow> [(''next-line'', r)]
          | None \<Rightarrow> []))
     @ [('''', s)]"

text \<open>\<^verbatim>\<open>(:|\s|$)\<close>: the text it consumes, when it matches.\<close>

definition re_terminator :: "string \<Rightarrow> string option" where
  "re_terminator s =
     (case s of
        [] \<Rightarrow> Some []
      | c # _ \<Rightarrow> if c = CHR '':'' \<or> is_space c then Some [c] else None)"

fun re_first :: "(string \<times> string) list \<Rightarrow> (string \<times> string) option" where
  "re_first [] = None"
| "re_first ((m, r) # alts) =
     (case re_terminator r of
        Some t \<Rightarrow> Some ((if m = [] then [] else CHR ''-'' # m) @ t, m)
      | None \<Rightarrow> re_first alts)"

text \<open>
  \<^verbatim>\<open>re.FindStringSubmatch(text)\<close>: \<^verbatim>\<open>None\<close> when there is no match (\<^verbatim>\<open>len(parts) == 0\<close>),
  else \<^verbatim>\<open>(parts[0], parts[1], parts[2])\<close>. \<^verbatim>\<open>parts[0]\<close> is also what
  \<^verbatim>\<open>re.FindString(text)\<close> returns.
\<close>

definition re_find :: "string \<Rightarrow> (string \<times> string \<times> string) option" where
  "re_find text =
     (case strip_prefix ''revive:'' (dropWhile is_space text) of
        None \<Rightarrow> None
      | Some s1 \<Rightarrow>
         (case re_keyword s1 of
            None \<Rightarrow> None
          | Some (kw, s2) \<Rightarrow>
             (case re_first (re_modifier s2) of
                None \<Rightarrow> None
              | Some (tail, m) \<Rightarrow>
                  Some (takeWhile is_space text @ ''revive:'' @ kw @ tail, kw, m))))"

text \<open>
  \<^verbatim>\<open>strings.Cut\<close>: the text before and after the leftmost occurrence of the separator.
\<close>

fun cut :: "string \<Rightarrow> string \<Rightarrow> (string \<times> string) option" where
  "cut sep [] = (if sep = [] then Some ([], []) else None)"
| "cut sep (c # cs) =
     (case strip_prefix sep (c # cs) of
        Some a \<Rightarrow> Some ([], a)
      | None \<Rightarrow>
         (case cut sep cs of
            None \<Rightarrow> None
          | Some (b, a) \<Rightarrow> Some (c # b, a)))"

lemma strip_prefix_length:
  "strip_prefix p s = Some a \<Longrightarrow> length s = length p + length a"
  by (induction p s rule: strip_prefix.induct) (auto split: if_splits)

lemma cut_length:
  "cut sep s = Some (b, a) \<Longrightarrow> length s = length b + length sep + length a"
proof (induction s arbitrary: b)
  case Nil
  then show ?case by (auto split: if_splits)
next
  case (Cons c cs)
  show ?case
  proof (cases "strip_prefix sep (c # cs)")
    case (Some a')
    with Cons.prems show ?thesis
      by (auto dest: strip_prefix_length)
  next
    case None
    with Cons.prems obtain b' where "cut sep cs = Some (b', a)" "b = c # b'"
      by (auto split: option.splits)
    with Cons.IH [of b'] show ?thesis by simp
  qed
qed

text \<open>
  \<^verbatim>\<open>strings.Split(s, sep)\<close>: the pieces of \<^verbatim>\<open>s\<close> between the occurrences of
  \<^verbatim>\<open>sep\<close>, found from the left. With the empty separator Go splits after each
  character; \<^verbatim>\<open>handleComment\<close> never passes one (a match holds at least
  \<^verbatim>\<open>revive:\<close>, and the other separator is the comma).
\<close>

function Split :: "string \<Rightarrow> string \<Rightarrow> string list" where
  "Split s sep =
     (if sep = [] then map (\<lambda>c. [c]) s
      else
        (case cut sep s of
           None \<Rightarrow> [s]
         | Some (b, a) \<Rightarrow> b # Split a sep))"
  by pat_completeness auto
termination
  by (relation "measure (\<lambda>(s, sep). length s)") (auto dest: cut_length)

text \<open>\<^verbatim>\<open>strings.Trim(name, "\n")\<close>: leading and trailing newlines removed.\<close>

definition Trim_newline :: "string \<Rightarrow> string" where
  "Trim_newline s =
     rev (dropWhile (\<lambda>c. c = CHR 0x0A) (rev (dropWhile (\<lambda>c. c = CHR 0x0A) s)))"

section \<open>Toggle events: \<^verbatim>\<open>handleConfig\<close>, \<^verbatim>\<open>handleRules\<close>, \<^verbatim>\<open>handleComment\<close>\<close>

text \<open>
  The closures of \<^verbatim>\<open>disabledIntervals\<close> share the map
  \<^verbatim>\<open>enabledDisabledRulesMap\<close>; here each takes the map and returns the updated one.

  \<^verbatim>\<open>handleConfig\<close>: a name that is not a key yet is stored with the empty list
  first; the event is dropped when the list has more than one event and the last one
  has the requested state, or when the list is empty and the request is to enable;
  else it is appended.
\<close>

definition handleConfig ::
  "bool \<Rightarrow> int \<Rightarrow> string \<Rightarrow> enabledDisabledRulesMap \<Rightarrow> enabledDisabledRulesMap" where
  "handleConfig isEnabled line name m =
     (let existing = (case m name of None \<Rightarrow> [] | Some e \<Rightarrow> e);
          m1 = (case m name of None \<Rightarrow> m(name \<mapsto> existing) | Some e \<Rightarrow> m)
      in
        if (length existing > 1 \<and> enabled (last existing) = isEnabled) \<or>
           (length existing = 0 \<and> isEnabled)
        then m1
        else m1(name \<mapsto> existing @ [\<lparr>enabled = isEnabled, position = line\<rparr>]))"

text \<open>
  \<^verbatim>\<open>handleRules\<close>: the body of its loop for one name, and the loop. Its
  \<^verbatim>\<open>filename\<close> parameter is unused and its result is always the nil slice, so the
  model keeps only the effect on the map.
\<close>

definition handleRule ::
  "string \<Rightarrow> bool \<Rightarrow> int \<Rightarrow> string \<Rightarrow> enabledDisabledRulesMap \<Rightarrow> enabledDisabledRulesMap" where
  "handleRule modifier isEnabled line name m =
     (if modifier = ''line'' then
        handleConfig (\<not> isEnabled) line name (handleConfig isEnabled line name m)
      else if modifier = ''next-line'' then
        handleConfig (\<not> isEnabled) (line + 1) name (handleConfig isEnabled (line + 1) name m)
      else
        handleConfig isEnabled line name m)"

fun handleRules ::
  "string \<Rightarrow> bool \<Rightarrow> int \<Rightarrow> string list \<Rightarrow> enabledDisabledRulesMap \<Rightarrow> enabledDisabledRulesMap" where
  "handleRules modifier isEnabled line [] m = m"
| "handleRules modifier isEnabled line (name # ruleNames) m =
     handleRules modifier isEnabled line ruleNames (handleRule modifier isEnabled line name m)"

text \<open>
  The rule names of a directive: \<^verbatim>\<open>strings.Split(text, str)\<close>; when that has exactly
  two pieces, the second one split at commas, each name trimmed of newlines, the empty
  ones left out; else no names.
\<close>

definition ruleNamesOf :: "string \<Rightarrow> string \<Rightarrow> string list" where
  "ruleNamesOf text str =
     (let ruleNamesString = Split text str
      in
        if length ruleNamesString = 2 then
          filter (\<lambda>name. length name > 0) (map Trim_newline (Split (ruleNamesString ! 1) '',''))
        else [])"

text \<open>
  \<^verbatim>\<open>handleComment\<close>: a comment the expression does not match changes nothing; an
  empty list of names is replaced by the names of all the rules passed to
  \<^verbatim>\<open>disabledIntervals\<close>; \<^verbatim>\<open>parts[2]\<close> is the modifier and the directive enables when
  \<^verbatim>\<open>parts[1]\<close> is \<^verbatim>\<open>enable\<close>.
\<close>

definition handleComment ::
  "string list \<Rightarrow> CommentGroup \<Rightarrow> enabledDisabledRulesMap \<Rightarrow> enabledDisabledRulesMap" where
  "handleComment rules c m =
     (let text = comment_Text c in
        case re_find text of
          None \<Rightarrow> m
        | Some (str, kw, modifier) \<Rightarrow>
            (let ruleNames = ruleNamesOf text str;
                 ruleNames' = (if length ruleNames = 0 then rules else ruleNames)
             in handleRules modifier (kw = ''enable'') (comment_Line c) ruleNames' m))"

section \<open>Intervals: \<^verbatim>\<open>getEnabledDisabledIntervals\<close>, \<^verbatim>\<open>disabledIntervals\<close>\<close>

text \<open>
  The inner loop of \<^verbatim>\<open>getEnabledDisabledIntervals\<close> over \<^verbatim>\<open>disabledArr\<close>, from index
  \<^verbatim>\<open>i\<close> on, with \<^verbatim>\<open>ruleResult\<close> as accumulator. At an even index the interval from
  the event's line to \<^verbatim>\<open>math.MaxInt32\<close> is appended; at an odd index the \<^verbatim>\<open>To.Line\<close>
  of the last interval is overwritten. The loop starts at index 0 with the empty
  result, and an odd index is reached only right after an even one has appended an
  interval, so the write at \<^verbatim>\<open>len(ruleResult)-1\<close> is always in range.
\<close>

fun intervalsLoop ::
  "string \<Rightarrow> string \<Rightarrow> enableDisableConfig list \<Rightarrow> nat \<Rightarrow> DisabledInterval list \<Rightarrow>
   DisabledInterval list" where
  "intervalsLoop fname ruleName [] i ruleResult = ruleResult"
| "intervalsLoop fname ruleName (e # es) i ruleResult =
     (let interval =
            \<lparr>RuleName = ruleName,
             From = \<lparr>Filename = fname, Line = position e\<rparr>,
             To = \<lparr>Filename = fname, Line = MaxInt32\<rparr>\<rparr>
      in
        intervalsLoop fname ruleName es (i + 1)
          (if i mod 2 = 0 then ruleResult @ [interval]
           else ruleResult[length ruleResult - 1 :=
                  (last ruleResult)\<lparr>To := (To (last ruleResult))\<lparr>Line := position e\<rparr>\<rparr>]))"

text \<open>
  The loop from \<^verbatim>\<open>i := 0\<close> with \<^verbatim>\<open>ruleResult := []DisabledInterval{}\<close>: the intervals of
  one rule. \<^verbatim>\<open>getEnabledDisabledIntervals\<close> runs it for every key of the map; the order
  in which Go visits the keys does not matter, since each key gets its own result.
\<close>

definition ruleIntervals :: "string \<Rightarrow> string \<Rightarrow> enableDisableConfig list \<Rightarrow> DisabledInterval list" where
  "ruleIntervals fname ruleName disabledArr = intervalsLoop fname ruleName disabledArr 0 []"

definition getEnabledDisabledIntervals ::
  "string \<Rightarrow> enabledDisabledRulesMap \<Rightarrow> disabledIntervalsMap" where
  "getEnabledDisabledIntervals fname m =
     (\<lambda>ruleName.
        case m ruleName of
          None \<Rightarrow> None
        | Some disabledArr \<Rightarrow> Some (ruleIntervals fname ruleName disabledArr))"

text \<open>
  The map of toggle events after the scan of the comments, and
  \<^verbatim>\<open>disabledIntervals\<close>. Of the rules only their names are used.
\<close>

definition scanComments :: "string list \<Rightarrow> CommentGroup list \<Rightarrow> enabledDisabledRulesMap" where
  "scanComments rules comments = fold (handleComment rules) comments Map.empty"

definition disabledIntervals :: "File \<Rightarrow> string list \<Rightarrow> disabledIntervalsMap" where
  "disabledIntervals f rules =
     getEnabledDisabledIntervals (file_Name f) (scanComments rules (file_Comments f))"

section \<open>\<^verbatim>\<open>filterFailures\<close> and \<^verbatim>\<open>lint\<close>\<close>

text \<open>
  The inner loop of \<^verbatim>\<open>filterFailures\<close>: the value of \<^verbatim>\<open>include\<close> after it, for a
  failure from line \<^verbatim>\<open>fStart\<close> to line \<^verbatim>\<open>fEnd\<close>.
\<close>

fun includeLoop :: "int \<Rightarrow> int \<Rightarrow> DisabledInterval list \<Rightarrow> bool" where
  "includeLoop fStart fEnd [] = True"
| "includeLoop fStart fEnd (interval # intervals) =
     (let intStart = Line (From interval);
          intEnd = Line (To interval)
      in
        if (fStart \<ge> intStart \<and> fStart \<le> intEnd) \<or> (fEnd \<ge> intStart \<and> fEnd \<le> intEnd)
        then False
        else includeLoop fStart fEnd intervals)"

fun filterFailures ::
  "'a Failure_scheme list \<Rightarrow> disabledIntervalsMap \<Rightarrow> 'a Failure_scheme list" where
  "filterFailures [] dIntervals = []"
| "filterFailures (failure # failures) dIntervals =
     (let fStart = Line (Start (Failure_Position failure));
          fEnd = Line (End (Failure_Position failure))
      in
        case dIntervals (Failure_RuleName failure) of
          None \<Rightarrow> failure # filterFailures failures dIntervals
        | Some intervals \<Rightarrow>
            if includeLoop fStart fEnd intervals
            then failure # filterFailures failures dIntervals
            else filterFailures failures dIntervals)"

text \<open>
  The first loop of \<^verbatim>\<open>lint\<close> over the failures of one rule: the name of the current
  rule where the failure has none, and the position of the node where it has one.
  \<^verbatim>\<open>ToFailurePosition\<close> is defined in another file of the package; it is a parameter
  here.
\<close>

definition stampFailure ::
  "(nat \<Rightarrow> nat \<Rightarrow> File \<Rightarrow> FailurePosition) \<Rightarrow> File \<Rightarrow> string \<Rightarrow>
   'a Failure_scheme \<Rightarrow> 'a Failure_scheme" where
  "stampFailure ToFailurePosition f currentRuleName failure =
     (let failure1 =
            (if Failure_RuleName failure = '''' then failure\<lparr>Failure_RuleName := currentRuleName\<rparr>
             else failure)
      in
        case Failure_Node failure1 of
          None \<Rightarrow> failure1
        | Some (pos, endPos) \<Rightarrow> failure1\<lparr>Failure_Position := ToFailurePosition pos endPos f\<rparr>)"

text \<open>
  \<^verbatim>\<open>lint\<close>: the failures sent to the channel, in the order they are sent.
  \<^verbatim>\<open>rulesConfig[name]\<close> on a Go map gives the zero value for a missing key, so the
  configuration is a total function.
\<close>

definition lint ::
  "(nat \<Rightarrow> nat \<Rightarrow> File \<Rightarrow> FailurePosition) \<Rightarrow> File \<Rightarrow> ('cfg, 'a) Rule list \<Rightarrow>
   (string \<Rightarrow> 'cfg) \<Rightarrow> 'a Failure_scheme list" where
  "lint ToFailurePosition f rules rulesConfig =
     (let dIntervals = disabledIntervals f (map rule_Name rules)
      in
        concat (map (\<lambda>currentRule.
          let config = rulesConfig (rule_Name currentRule);
              currentFailures = rule_Apply currentRule f config;
              currentFailures = map (stampFailure ToFailurePosition f (rule_Name currentRule)) currentFailures
          in filterFailures currentFailures dIntervals) rules))"

section \<open>\<^verbatim>\<open>IsUntypedConst\<close>\<close>

text \<open>
  \<^verbatim>\<open>types.BasicKind\<close>: the six kinds that are keys of \<^verbatim>\<open>basicTypeKinds\<close>, and one
  constructor for every other kind (\<^verbatim>\<open>Invalid\<close>, the typed kinds, \<^verbatim>\<open>UntypedNil\<close>).
\<close>

datatype BasicKind =
  UntypedBool | UntypedInt | UntypedRune | UntypedFloat | UntypedComplex | UntypedString
  | OtherKind

text \<open>
  The dynamic type of \<^verbatim>\<open>tv.Type\<close>: a \<^verbatim>\<open>*types.Basic\<close> with its kind, or anything else.
\<close>

datatype go_Type = Basic BasicKind | NotBasic

definition basicTypeKinds :: "BasicKind \<rightharpoonup> string" where
  "basicTypeKinds =
     [UntypedBool \<mapsto> ''bool'', UntypedInt \<mapsto> ''int'', UntypedRune \<mapsto> ''rune'',
      UntypedFloat \<mapsto> ''float64'', UntypedComplex \<mapsto> ''complex128'',
      UntypedString \<mapsto> ''string'']"

text \<open>\<^verbatim>\<open>Render\<close> panics when \<^verbatim>\<open>printer.Fprint\<close> returns an error.\<close>

datatype 'e panic = Panic 'e

text \<open>
  \<^verbatim>\<open>IsUntypedConst\<close>. The printer and the type checker are parameters:
  \<^verbatim>\<open>Fprint x\<close> is the error or the text that \<^verbatim>\<open>printer.Fprint\<close> writes for \<^verbatim>\<open>x\<close>, and
  \<^verbatim>\<open>Eval expr exprStr\<close> is the result of
  \<^verbatim>\<open>types.Eval(f.Pkg.fset, f.Pkg.TypesPkg, expr.Pos(), exprStr)\<close>: the error, or the
  type of the \<^verbatim>\<open>TypeAndValue\<close>. The result is the panic, or the pair
  \<^verbatim>\<open>(defType, ok)\<close>.
\<close>

definition Render :: "('x \<Rightarrow> 'e + string) \<Rightarrow> 'x \<Rightarrow> 'e panic + string" where
  "Render Fprint x = (case Fprint x of Inl err \<Rightarrow> Inl (Panic err) | Inr buf \<Rightarrow> Inr buf)"

definition IsUntypedConst ::
  "('x \<Rightarrow> 'e + string) \<Rightarrow> ('x \<Rightarrow> string \<Rightarrow> 'err + go_Type) \<Rightarrow> 'x \<Rightarrow>
   'e panic + (string \<times> bool)" where
  "IsUntypedConst Fprint Eval expr =
     (case Render Fprint expr of
        Inl p \<Rightarrow> Inl p
      | Inr exprStr \<Rightarrow>
         (case Eval expr exprStr of
            Inl err \<Rightarrow> Inr ('''', False)
          | Inr tvType \<Rightarrow>
             (case tvType of
                Basic b \<Rightarrow>
                  (case basicTypeKinds b of
                     Some dt \<Rightarrow> Inr (dt, True)
                   | None \<Rightarrow> Inr ('''', False))
              | NotBasic \<Rightarrow> Inr ('''', False))))"

section \<open>Notions used to state the properties\<close>

text \<open>
  The events of a rule in the map (none when the rule is not a key), and what
  \<^verbatim>\<open>handleConfig\<close> and the loop body of \<^verbatim>\<open>handleRules\<close> do to the list of one rule.
  \<open>handleConfig_eq\<close> and \<open>handleRule_eq\<close> below relate them to the code.
\<close>

definition events_of :: "enabledDisabledRulesMap \<Rightarrow> string \<Rightarrow> enableDisableConfig list" where
  "events_of m name = (case m name of None \<Rightarrow> [] | Some e \<Rightarrow> e)"

definition toggle :: "bool \<Rightarrow> int \<Rightarrow> enableDisableConfig list \<Rightarrow> enableDisableConfig list" where
  "toggle isEnabled line existing =
     (if (length existing > 1 \<and> enabled (last existing) = isEnabled) \<or>
         (length existing = 0 \<and> isEnabled)
      then existing
      else existing @ [\<lparr>enabled = isEnabled, position = line\<rparr>])"

definition rule_toggle ::
  "string \<Rightarrow> bool \<Rightarrow> int \<Rightarrow> enableDisableConfig list \<Rightarrow> enableDisableConfig list" where
  "rule_toggle modifier isEnabled line existing =
     (if modifier = ''line'' then toggle (\<not> isEnabled) line (toggle isEnabled line existing)
      else if modifier = ''next-line'' then
        toggle (\<not> isEnabled) (line + 1) (toggle isEnabled (line + 1) existing)
      else toggle isEnabled line existing)"

text \<open>The interval of a rule from one line to another, in a file.\<close>

definition mkInterval :: "string \<Rightarrow> string \<Rightarrow> int \<Rightarrow> int \<Rightarrow> DisabledInterval" where
  "mkInterval fname ruleName from to =
     \<lparr>RuleName = ruleName,
      From = \<lparr>Filename = fname, Line = from\<rparr>,
      To = \<lparr>Filename = fname, Line = to\<rparr>\<rparr>"

text \<open>
  The pairing of the events as the specification words it: two events at a time, the
  first opens an interval and the second closes it; a last event without a partner
  opens an interval that ends at the sentinel.
\<close>

fun pairIntervals :: "string \<Rightarrow> string \<Rightarrow> enableDisableConfig list \<Rightarrow> DisabledInterval list" where
  "pairIntervals fname ruleName [] = []"
| "pairIntervals fname ruleName [e] = [mkInterval fname ruleName (position e) MaxInt32]"
| "pairIntervals fname ruleName (e # e' # es) =
     mkInterval fname ruleName (position e) (position e') # pairIntervals fname ruleName es"

text \<open>
  The overlap test of \<^verbatim>\<open>filterFailures\<close> for one interval: the start line or the end
  line of the failure lies in the interval.
\<close>

definition hits :: "int \<Rightarrow> int \<Rightarrow> DisabledInterval \<Rightarrow> bool" where
  "hits fStart fEnd interval \<longleftrightarrow>
     (Line (From interval) \<le> fStart \<and> fStart \<le> Line (To interval)) \<or>
     (Line (From interval) \<le> fEnd \<and> fEnd \<le> Line (To interval))"

text \<open>
  Closed intervals in ascending order that do not overlap: each interval ends before
  the next one starts. The weaker notion lets an interval start on the line where the
  one before it ends.
\<close>

fun ascending_disjoint :: "DisabledInterval list \<Rightarrow> bool" where
  "ascending_disjoint [] = True"
| "ascending_disjoint [i] = (Line (From i) \<le> Line (To i))"
| "ascending_disjoint (i # j # is) =
     (Line (From i) \<le> Line (To i) \<and> Line (To i) < Line (From j) \<and> ascending_disjoint (j # is))"

fun ascending_touching :: "DisabledInterval list \<Rightarrow> bool" where
  "ascending_touching [] = True"
| "ascending_touching [i] = (Line (From i) \<le> Line (To i))"
| "ascending_touching (i # j # is) =
     (Line (From i) \<le> Line (To i) \<and> Line (To i) \<le> Line (From j) \<and> ascending_touching (j # is))"

text \<open>
  The names a directive applies to (an empty list stands for all the rules passed
  in), and whether a comment is a directive that applies to a rule.
\<close>

definition directiveNames :: "string list \<Rightarrow> string \<Rightarrow> string \<Rightarrow> string list" where
  "directiveNames rules text str =
     (if ruleNamesOf text str = [] then rules else ruleNamesOf text str)"

definition affects :: "string list \<Rightarrow> string \<Rightarrow> CommentGroup \<Rightarrow> bool" where
  "affects rules ruleName c =
     (case re_find (comment_Text c) of
        None \<Rightarrow> False
      | Some (str, kw, modifier) \<Rightarrow> ruleName \<in> set (directiveNames rules (comment_Text c) str))"

text \<open>
  A rule is not suppressed at a point of the scan when its list of events is empty, or
  has an even number of events and ends with an enabling one.
\<close>

definition notSuppressed :: "enableDisableConfig list \<Rightarrow> bool" where
  "notSuppressed evs \<longleftrightarrow> evs = [] \<or> (even (length evs) \<and> enabled (last evs))"

text \<open>
  A \<^verbatim>\<open>disable\<close> directive at a line holds for a rule when the rule is not
  suppressed there, or when its list has an odd number of events, three or more, and
  ends with a disabling event whose line is not after that line: the rule is
  suppressed already, and the directive is recognised as a repetition.
\<close>

definition disableHolds :: "enableDisableConfig list \<Rightarrow> int \<Rightarrow> bool" where
  "disableHolds evs line \<longleftrightarrow>
     notSuppressed evs \<or>
     (1 < length evs \<and> odd (length evs) \<and> \<not> enabled (last evs) \<and> position (last evs) \<le> line)"

text \<open>
  The invariant of the scan behind the order of the intervals: in every list of the
  map the lines of the events do not decrease, and none exceeds the bound.
\<close>

definition events_sorted_upto :: "enabledDisabledRulesMap \<Rightarrow> int \<Rightarrow> bool" where
  "events_sorted_upto m b \<longleftrightarrow>
     (\<forall>n evs. m n = Some evs \<longrightarrow>
        sorted (map position evs) \<and> (\<forall>e \<in> set evs. position e \<le> b))"

text \<open>
  Examples: the comment group whose text is one newline-terminated line, and a failure
  of a rule from one line to another.
\<close>

definition commentAt :: "string \<Rightarrow> int \<Rightarrow> CommentGroup" where
  "commentAt text line = \<lparr>comment_Text = text @ [CHR 0x0A], comment_Line = line\<rparr>"

definition failureAt :: "string \<Rightarrow> int \<Rightarrow> int \<Rightarrow> Failure" where
  "failureAt ruleName fStart fEnd =
     \<lparr>Failure_RuleName = ruleName, Failure_Node = None,
      Failure_Position =
        \<lparr>Start = \<lparr>Filename = ''f.go'', Line = fStart\<rparr>,
         End = \<lparr>Filename = ''f.go'', Line = fEnd\<rparr>\<rparr>\<rparr>"

text \<open>
  Two rules for the examples: the failure of the first has no rule name and carries a
  node, the failure of the second has a name and no node; and a position resolver that
  puts ten offsets on a line.
\<close>

definition exampleRules :: "(unit, unit) Rule list" where
  "exampleRules =
     [\<lparr>rule_Name = ''a'',
       rule_Apply = (\<lambda>f cfg.
         [\<lparr>Failure_RuleName = '''', Failure_Node = Some (10, 20),
           Failure_Position = \<lparr>Start = \<lparr>Filename = '''', Line = 0\<rparr>,
                               End = \<lparr>Filename = '''', Line = 0\<rparr>\<rparr>\<rparr>])\<rparr>,
      \<lparr>rule_Name = ''b'', rule_Apply = (\<lambda>f cfg. [failureAt ''named'' 7 7])\<rparr>]"

definition examplePosition :: "nat \<Rightarrow> nat \<Rightarrow> File \<Rightarrow> FailurePosition" where
  "examplePosition pos endPos f =
     \<lparr>Start = \<lparr>Filename = file_Name f, Line = int pos div 10\<rparr>,
      End = \<lparr>Filename = file_Name f, Line = int endPos div 10\<rparr>\<rparr>"

section \<open>The toggle events of one rule\<close>

lemma handleConfig_eq:
  "handleConfig isEnabled line name m = m(name \<mapsto> toggle isEnabled line (events_of m name))"
  by (cases "m name") (auto simp: handleConfig_def toggle_def events_of_def Let_def fun_upd_idem)

lemma events_of_upd:
  "events_of (m(name \<mapsto> evs)) n = (if n = name then evs else events_of m n)"
  by (simp add: events_of_def)

lemma handleRule_eq:
  "handleRule modifier isEnabled line name m =
     m(name \<mapsto> rule_toggle modifier isEnabled line (events_of m name))"
  by (simp add: handleRule_def rule_toggle_def handleConfig_eq events_of_upd)

lemma handleRules_other:
  "n \<notin> set ruleNames \<Longrightarrow> handleRules modifier isEnabled line ruleNames m n = m n"
  by (induction ruleNames arbitrary: m) (auto simp: handleRule_eq)

lemma handleRules_distinct:
  "distinct ruleNames \<Longrightarrow> n \<in> set ruleNames \<Longrightarrow>
   handleRules modifier isEnabled line ruleNames m n =
     Some (rule_toggle modifier isEnabled line (events_of m n))"
  by (induction ruleNames arbitrary: m) (auto simp: handleRule_eq handleRules_other events_of_upd)

lemma handleRules_dom:
  "dom (handleRules modifier isEnabled line ruleNames m) = dom m \<union> set ruleNames"
  by (induction ruleNames arbitrary: m) (auto simp: handleRule_eq)

lemma handleComment_nomatch:
  "re_find (comment_Text c) = None \<Longrightarrow> handleComment rules c m = m"
  by (simp add: handleComment_def)

lemma handleComment_directive:
  "re_find (comment_Text c) = Some (str, kw, modifier) \<Longrightarrow>
   handleComment rules c m =
     handleRules modifier (kw = ''enable'') (comment_Line c)
       (directiveNames rules (comment_Text c) str) m"
  by (simp add: handleComment_def directiveNames_def Let_def)

lemma handleComment_unaffected:
  "\<not> affects rules ruleName c \<Longrightarrow> handleComment rules c m ruleName = m ruleName"
  by (cases "re_find (comment_Text c)")
     (auto simp: affects_def handleComment_nomatch handleComment_directive handleRules_other)

lemma fold_handleComment_unaffected:
  "\<forall>c \<in> set cs. \<not> affects rules ruleName c \<Longrightarrow>
   fold (handleComment rules) cs m ruleName = m ruleName"
  by (induction cs arbitrary: m) (auto simp: handleComment_unaffected)

lemma toggle_enable_empty: "toggle True line [] = []"
  by (simp add: toggle_def)

lemma toggle_disable_empty: "toggle False line [] = [\<lparr>enabled = False, position = line\<rparr>]"
  by (simp add: toggle_def)

lemma scanComments_no_directives:
  "\<forall>c \<in> set comments. re_find (comment_Text c) = None \<Longrightarrow>
   fold (handleComment rules) comments m = m"
  by (induction comments arbitrary: m) (auto simp: handleComment_nomatch)

lemma notSuppressed_even: "notSuppressed evs \<Longrightarrow> even (length evs)"
  by (auto simp: notSuppressed_def)

lemma toggle_disable_notSuppressed:
  "notSuppressed evs \<Longrightarrow> toggle False l evs = evs @ [\<lparr>enabled = False, position = l\<rparr>]"
  by (auto simp: notSuppressed_def toggle_def)

lemma toggle_disable_holds:
  assumes "disableHolds evs line"
  shows "odd (length (toggle False line evs)) \<and> position (last (toggle False line evs)) \<le> line"
proof (cases "notSuppressed evs")
  case True
  then show ?thesis
    by (simp add: toggle_disable_notSuppressed notSuppressed_even)
next
  case False
  with assms have "1 < length evs \<and> odd (length evs) \<and> \<not> enabled (last evs) \<and>
      position (last evs) \<le> line"
    by (simp add: disableHolds_def)
  then show ?thesis by (simp add: toggle_def)
qed

lemma toggle_enable_after_disable:
  "toggle True l (evs @ [\<lparr>enabled = False, position = l'\<rparr>]) =
     evs @ [\<lparr>enabled = False, position = l'\<rparr>, \<lparr>enabled = True, position = l\<rparr>]"
  by (simp add: toggle_def)

lemma rule_toggle_disable_line:
  "notSuppressed evs \<Longrightarrow> modifier = ''line'' \<or> modifier = ''next-line'' \<Longrightarrow>
   rule_toggle modifier False line evs =
     evs @ [\<lparr>enabled = False, position = (if modifier = ''line'' then line else line + 1)\<rparr>,
            \<lparr>enabled = True, position = (if modifier = ''line'' then line else line + 1)\<rparr>]"
  by (auto simp: rule_toggle_def toggle_disable_notSuppressed toggle_enable_after_disable)

section \<open>The order of the events\<close>

lemma toggle_sorted:
  "sorted (map position evs) \<and> (\<forall>e \<in> set evs. position e \<le> l) \<Longrightarrow>
   sorted (map position (toggle b l evs)) \<and> (\<forall>e \<in> set (toggle b l evs). position e \<le> l)"
  by (auto simp: toggle_def sorted_append)

lemma rule_toggle_sorted:
  assumes "sorted (map position evs) \<and>
           (\<forall>e \<in> set evs. position e \<le> (if modifier = ''next-line'' then line + 1 else line))"
  shows "sorted (map position (rule_toggle modifier b line evs)) \<and>
         (\<forall>e \<in> set (rule_toggle modifier b line evs).
            position e \<le> (if modifier = ''next-line'' then line + 1 else line))"
proof -
  let ?l = "if modifier = ''next-line'' then line + 1 else line"
  have one: "sorted (map position (toggle b ?l evs)) \<and>
      (\<forall>e \<in> set (toggle b ?l evs). position e \<le> ?l)"
    using assms by (rule toggle_sorted)
  have two: "sorted (map position (toggle (\<not> b) ?l (toggle b ?l evs))) \<and>
      (\<forall>e \<in> set (toggle (\<not> b) ?l (toggle b ?l evs)). position e \<le> ?l)"
    using one by (rule toggle_sorted)
  have "rule_toggle modifier b line evs = toggle b ?l evs \<or>
      rule_toggle modifier b line evs = toggle (\<not> b) ?l (toggle b ?l evs)"
    by (simp add: rule_toggle_def)
  then show ?thesis
  proof
    assume "rule_toggle modifier b line evs = toggle b ?l evs"
    with one show ?thesis by simp
  next
    assume "rule_toggle modifier b line evs = toggle (\<not> b) ?l (toggle b ?l evs)"
    with two show ?thesis by simp
  qed
qed

lemma events_sorted_upto_mono:
  "events_sorted_upto m b \<Longrightarrow> b \<le> b' \<Longrightarrow> events_sorted_upto m b'"
  unfolding events_sorted_upto_def by (meson order_trans)

lemma events_sorted_upto_empty: "events_sorted_upto Map.empty b"
  by (simp add: events_sorted_upto_def)

lemma events_of_sorted:
  "events_sorted_upto m b \<Longrightarrow>
   sorted (map position (events_of m n)) \<and> (\<forall>e \<in> set (events_of m n). position e \<le> b)"
  by (cases "m n") (auto simp: events_sorted_upto_def events_of_def)

lemma handleRule_sorted:
  assumes "events_sorted_upto m (if modifier = ''next-line'' then line + 1 else line)"
  shows "events_sorted_upto (handleRule modifier b line name m)
           (if modifier = ''next-line'' then line + 1 else line)"
  unfolding events_sorted_upto_def handleRule_eq
proof (intro allI impI)
  fix n evs
  assume h: "(m(name \<mapsto> rule_toggle modifier b line (events_of m name))) n = Some evs"
  show "sorted (map position evs) \<and>
        (\<forall>e \<in> set evs. position e \<le> (if modifier = ''next-line'' then line + 1 else line))"
  proof (cases "n = name")
    case True
    with h have "evs = rule_toggle modifier b line (events_of m name)" by simp
    with rule_toggle_sorted [OF events_of_sorted [OF assms]] show ?thesis by simp
  next
    case False
    with h have "m n = Some evs" by simp
    with assms show ?thesis unfolding events_sorted_upto_def by blast
  qed
qed

lemma handleRules_sorted:
  "events_sorted_upto m (if modifier = ''next-line'' then line + 1 else line) \<Longrightarrow>
   events_sorted_upto (handleRules modifier b line names m)
     (if modifier = ''next-line'' then line + 1 else line)"
  by (induction names arbitrary: m) (simp_all add: handleRule_sorted)

lemma handleComment_sorted:
  assumes "events_sorted_upto m b" and "b \<le> comment_Line c"
  shows "events_sorted_upto (handleComment rules c m) (comment_Line c + 1)"
proof (cases "re_find (comment_Text c)")
  case None
  with assms show ?thesis
    by (simp add: handleComment_nomatch events_sorted_upto_mono)
next
  case (Some p)
  then obtain str kw modifier where p: "re_find (comment_Text c) = Some (str, kw, modifier)"
    by (cases p) auto
  have "events_sorted_upto m (if modifier = ''next-line'' then comment_Line c + 1 else comment_Line c)"
    using assms by (auto intro: events_sorted_upto_mono)
  then have "events_sorted_upto
      (handleRules modifier (kw = ''enable'') (comment_Line c)
         (directiveNames rules (comment_Text c) str) m)
      (if modifier = ''next-line'' then comment_Line c + 1 else comment_Line c)"
    by (rule handleRules_sorted)
  then have "events_sorted_upto
      (handleRules modifier (kw = ''enable'') (comment_Line c)
         (directiveNames rules (comment_Text c) str) m) (comment_Line c + 1)"
    by (rule events_sorted_upto_mono) simp
  then show ?thesis
    by (simp add: handleComment_directive [OF p])
qed

lemma fold_handleComment_sorted:
  "sorted_wrt (<) (map comment_Line cs) \<Longrightarrow>
   \<forall>c \<in> set cs. b \<le> comment_Line c \<and> comment_Line c < M \<Longrightarrow> b \<le> M \<Longrightarrow>
   events_sorted_upto m b \<Longrightarrow>
   events_sorted_upto (fold (handleComment rules) cs m) M"
proof (induction cs arbitrary: m b)
  case Nil
  then show ?case by (simp add: events_sorted_upto_mono)
next
  case (Cons c cs)
  have 1: "events_sorted_upto (handleComment rules c m) (comment_Line c + 1)"
    using Cons.prems by (simp add: handleComment_sorted)
  have 2: "\<forall>c' \<in> set cs. comment_Line c + 1 \<le> comment_Line c' \<and> comment_Line c' < M"
    using Cons.prems by auto
  have 3: "comment_Line c + 1 \<le> M" using Cons.prems by auto
  have 4: "sorted_wrt (<) (map comment_Line cs)" using Cons.prems by simp
  from Cons.IH [OF 4 2 3 1] show ?case by simp
qed

section \<open>The intervals of one rule\<close>

lemma intervalsLoop_even:
  "even i \<Longrightarrow>
   intervalsLoop fname ruleName es i acc = acc @ pairIntervals fname ruleName es"
proof (induction fname ruleName es arbitrary: i acc rule: pairIntervals.induct)
  case (1 fname ruleName)
  then show ?case by simp
next
  case (2 fname ruleName e)
  then show ?case by (simp add: mkInterval_def Let_def)
next
  case (3 fname ruleName e e' es)
  have ev: "even (i + 1 + 1)" using "3.prems" by simp
  have m0: "i mod 2 = 0" and m1: "(i + 1) mod 2 \<noteq> 0"
    using "3.prems" by presburger+
  have "intervalsLoop fname ruleName (e # e' # es) i acc =
        intervalsLoop fname ruleName es (i + 1 + 1)
          (acc @ [mkInterval fname ruleName (position e) (position e')])"
    using m0 m1 by (simp add: mkInterval_def Let_def del: One_nat_def)
  with "3.IH" [OF ev] show ?case by simp
qed

lemma ruleIntervals_pair: "ruleIntervals fname ruleName es = pairIntervals fname ruleName es"
  by (simp add: ruleIntervals_def intervalsLoop_even)

lemma ruleIntervals_length:
  "length (ruleIntervals fname ruleName es) = (length es + 1) div 2"
  unfolding ruleIntervals_pair
  by (induction fname ruleName es rule: pairIntervals.induct) auto

lemma pairIntervals_append_even:
  "even (length es) \<Longrightarrow>
   pairIntervals fname ruleName (es @ es') =
     pairIntervals fname ruleName es @ pairIntervals fname ruleName es'"
  by (induction fname ruleName es rule: pairIntervals.induct) auto

lemma pairIntervals_odd_last:
  assumes "odd (length evs)"
  shows "pairIntervals fname ruleName evs =
     pairIntervals fname ruleName (butlast evs) @
       [mkInterval fname ruleName (position (last evs)) MaxInt32]"
proof -
  from assms have ne: "evs \<noteq> []" by auto
  then have "even (length (butlast evs))" using assms by simp
  from pairIntervals_append_even [OF this, of fname ruleName "[last evs]"] ne
  show ?thesis by simp
qed

lemma nth_pairIntervals:
  "k < (length es + 1) div 2 \<Longrightarrow>
   pairIntervals fname ruleName es ! k =
     mkInterval fname ruleName (position (es ! (2 * k)))
       (if 2 * k + 1 < length es then position (es ! (2 * k + 1)) else MaxInt32)"
proof (induction fname ruleName es arbitrary: k rule: pairIntervals.induct)
  case (1 fname ruleName)
  then show ?case by simp
next
  case (2 fname ruleName e)
  then show ?case by simp
next
  case (3 fname ruleName e e' es)
  show ?case
  proof (cases k)
    case 0
    then show ?thesis by simp
  next
    case (Suc j)
    with "3.prems" have "j < (length es + 1) div 2" by simp
    from "3.IH" [OF this] Suc show ?thesis by simp
  qed
qed

lemma getEnabledDisabledIntervals_Some:
  "m ruleName = Some evs \<Longrightarrow>
   getEnabledDisabledIntervals fname m ruleName = Some (pairIntervals fname ruleName evs)"
  by (simp add: getEnabledDisabledIntervals_def ruleIntervals_pair)

lemma ascending_touching_Cons:
  "ascending_touching (i # is) \<longleftrightarrow>
     Line (From i) \<le> Line (To i) \<and>
     (is = [] \<or> Line (To i) \<le> Line (From (hd is))) \<and> ascending_touching is"
  by (cases "is") auto

lemma hd_pairIntervals:
  "es \<noteq> [] \<Longrightarrow> Line (From (hd (pairIntervals fname ruleName es))) = position (hd es)"
  by (induction fname ruleName es rule: pairIntervals.induct) (auto simp: mkInterval_def)

lemma pairIntervals_Nil: "pairIntervals fname ruleName es = [] \<longleftrightarrow> es = []"
  by (induction fname ruleName es rule: pairIntervals.induct) auto

lemma pairIntervals_ascending:
  "sorted (map position es) \<Longrightarrow> \<forall>e \<in> set es. position e \<le> MaxInt32 \<Longrightarrow>
   ascending_touching (pairIntervals fname ruleName es)"
proof (induction fname ruleName es rule: pairIntervals.induct)
  case (1 fname ruleName)
  then show ?case by simp
next
  case (2 fname ruleName e)
  then show ?case by (simp add: mkInterval_def)
next
  case (3 fname ruleName e e' es)
  then have rest: "ascending_touching (pairIntervals fname ruleName es)" by simp
  have le: "position e \<le> position e'" using "3.prems"(1) by simp
  show ?case
  proof (cases "es = []")
    case True
    with le show ?thesis by (simp add: mkInterval_def)
  next
    case False
    then have "position e' \<le> position (hd es)"
      using "3.prems"(1) by (cases es) auto
    with False rest le show ?thesis
      by (simp add: ascending_touching_Cons pairIntervals_Nil hd_pairIntervals mkInterval_def
          del: ascending_touching.simps)
  qed
qed

lemma pairIntervals_index:
  "pairIntervals fname ruleName es =
     map (\<lambda>k. mkInterval fname ruleName (position (es ! (2 * k)))
                (if 2 * k + 1 < length es then position (es ! (2 * k + 1)) else MaxInt32))
       [0 ..< (length es + 1) div 2]"
  by (rule nth_equalityI)
     (simp_all add: nth_pairIntervals ruleIntervals_length [unfolded ruleIntervals_pair])

section \<open>The filter\<close>

lemma includeLoop_hits:
  "includeLoop fStart fEnd intervals \<longleftrightarrow> (\<forall>i \<in> set intervals. \<not> hits fStart fEnd i)"
  by (induction intervals) (auto simp: hits_def Let_def)

lemma filterFailures_filter:
  "filterFailures failures dIntervals =
     filter (\<lambda>failure.
        case dIntervals (Failure_RuleName failure) of
          None \<Rightarrow> True
        | Some intervals \<Rightarrow>
            includeLoop (Line (Start (Failure_Position failure)))
              (Line (End (Failure_Position failure))) intervals) failures"
  by (induction failures) (auto simp: Let_def split: option.splits)

lemma filterFailures_empty: "filterFailures failures Map.empty = failures"
  by (induction failures) auto

lemma stampFailure_eq:
  "stampFailure ToFailurePosition f currentRuleName =
     (\<lambda>failure. failure
       \<lparr>Failure_RuleName :=
          (if Failure_RuleName failure = '''' then currentRuleName else Failure_RuleName failure),
        Failure_Position :=
          (case Failure_Node failure of
             None \<Rightarrow> Failure_Position failure
           | Some (pos, endPos) \<Rightarrow> ToFailurePosition pos endPos f)\<rparr>)"
proof
  fix failure :: "'a Failure_scheme"
  show "stampFailure ToFailurePosition f currentRuleName failure =
     failure
       \<lparr>Failure_RuleName :=
          (if Failure_RuleName failure = '''' then currentRuleName else Failure_RuleName failure),
        Failure_Position :=
          (case Failure_Node failure of
             None \<Rightarrow> Failure_Position failure
           | Some (pos, endPos) \<Rightarrow> ToFailurePosition pos endPos f)\<rparr>"
    by (cases "Failure_Node failure") (auto simp: stampFailure_def Let_def)
qed

lemma includeLoop_append:
  "includeLoop fStart fEnd (xs @ ys) \<longleftrightarrow> includeLoop fStart fEnd xs \<and> includeLoop fStart fEnd ys"
  by (auto simp: includeLoop_hits)

lemma includeLoop_single: "includeLoop fStart fEnd [i] \<longleftrightarrow> \<not> hits fStart fEnd i"
  by (simp add: includeLoop_hits)

lemma hits_point: "hits fStart fEnd (mkInterval fname ruleName l l) \<longleftrightarrow> fStart = l \<or> fEnd = l"
  by (auto simp: hits_def mkInterval_def)

lemma events_of_Some: "m n = Some evs \<Longrightarrow> events_of m n = evs"
  by (simp add: events_of_def)

lemma filterFailures_events:
  "filterFailures failures (getEnabledDisabledIntervals fname m) =
     filter (\<lambda>failure.
        includeLoop (Line (Start (Failure_Position failure)))
          (Line (End (Failure_Position failure)))
          (pairIntervals fname (Failure_RuleName failure)
             (events_of m (Failure_RuleName failure)))) failures"
  unfolding filterFailures_filter
  by (rule filter_cong)
     (auto simp: getEnabledDisabledIntervals_def ruleIntervals_pair events_of_def
       split: option.splits)

section \<open>Directives for one line\<close>

lemma line_directive_events:
  assumes "re_find (comment_Text c) = Some (str, ''disable'', modifier)"
    and "modifier = ''line'' \<or> modifier = ''next-line''"
    and "distinct (directiveNames rules (comment_Text c) str)"
    and "\<forall>n \<in> set (directiveNames rules (comment_Text c) str). notSuppressed (events_of m n)"
  shows "events_of (handleComment rules c m) n =
           (if n \<in> set (directiveNames rules (comment_Text c) str)
            then events_of m n @
              [\<lparr>enabled = False,
                position = (if modifier = ''line'' then comment_Line c else comment_Line c + 1)\<rparr>,
               \<lparr>enabled = True,
                position = (if modifier = ''line'' then comment_Line c else comment_Line c + 1)\<rparr>]
            else events_of m n)"
proof (cases "n \<in> set (directiveNames rules (comment_Text c) str)")
  case True
  with assms(4) have "notSuppressed (events_of m n)" by blast
  from rule_toggle_disable_line [OF this assms(2), of "comment_Line c"] True assms(1,3)
  show ?thesis
    by (simp add: handleComment_directive handleRules_distinct events_of_Some)
next
  case False
  with assms(1) have "handleComment rules c m n = m n"
    by (simp add: handleComment_directive handleRules_other)
  with False show ?thesis by (simp add: events_of_def)
qed

lemma line_directive_filter:
  fixes failures :: "'a Failure_scheme list"
  assumes "re_find (comment_Text c) = Some (str, ''disable'', modifier)"
    and "modifier = ''line'' \<or> modifier = ''next-line''"
    and "distinct (directiveNames rules (comment_Text c) str)"
    and "\<forall>n \<in> set (directiveNames rules (comment_Text c) str). notSuppressed (events_of m n)"
  shows "filterFailures failures (getEnabledDisabledIntervals fname (handleComment rules c m)) =
     filter (\<lambda>failure.
        \<not> (Failure_RuleName failure \<in> set (directiveNames rules (comment_Text c) str) \<and>
           (Line (Start (Failure_Position failure)) =
              (if modifier = ''line'' then comment_Line c else comment_Line c + 1) \<or>
            Line (End (Failure_Position failure)) =
              (if modifier = ''line'' then comment_Line c else comment_Line c + 1))))
       (filterFailures failures (getEnabledDisabledIntervals fname m))"
  unfolding filterFailures_events filter_filter
proof (rule filter_cong [OF refl])
  fix x :: "'a Failure_scheme"
  let ?n = "Failure_RuleName x"
  show "includeLoop (Line (Start (Failure_Position x))) (Line (End (Failure_Position x)))
          (pairIntervals fname ?n (events_of (handleComment rules c m) ?n)) =
        (includeLoop (Line (Start (Failure_Position x))) (Line (End (Failure_Position x)))
           (pairIntervals fname ?n (events_of m ?n)) \<and>
         \<not> (?n \<in> set (directiveNames rules (comment_Text c) str) \<and>
            (Line (Start (Failure_Position x)) =
               (if modifier = ''line'' then comment_Line c else comment_Line c + 1) \<or>
             Line (End (Failure_Position x)) =
               (if modifier = ''line'' then comment_Line c else comment_Line c + 1))))"
  proof (cases "?n \<in> set (directiveNames rules (comment_Text c) str)")
    case True
    with assms(4) have "even (length (events_of m ?n))"
      by (blast intro: notSuppressed_even)
    with True show ?thesis
      unfolding line_directive_events [OF assms]
      by (auto simp: pairIntervals_append_even includeLoop_append includeLoop_single hits_point
          simp del: includeLoop.simps)
  next
    case False
    then show ?thesis
      unfolding line_directive_events [OF assms] by simp
  qed
qed

section \<open>The claims\<close>

subsection \<open>C1: repeated directives\<close>

text \<open>
  C1. The claim: a toggle is appended to the list of a rule only if the requested state
  differs from the state accumulated for the rule, so that two \<^verbatim>\<open>disable\<close> directives
  in a row for one rule give the same intervals as one. \<^verbatim>\<open>handleConfig\<close> compares the
  request with the last event only when the list has more than one event
  (\<^verbatim>\<open>len(existing) > 1\<close>), so the second \<^verbatim>\<open>disable\<close> is appended to a list of one
  event. The theorem evaluates the code on a file with the directive at lines 5 and 8,
  and on the file with the directive at line 5 only: the first file suppresses lines
  5 to 8, the second one lines 5 to the sentinel.
\<close>

theorem C1_repeated_disable:
  "disabledIntervals
     \<lparr>file_Name = ''f.go'',
      file_Comments = [commentAt ''revive:disable:r'' 5, commentAt ''revive:disable:r'' 8]\<rparr>
     [''r''] ''r'' = Some [mkInterval ''f.go'' ''r'' 5 8] \<and>
   disabledIntervals
     \<lparr>file_Name = ''f.go'', file_Comments = [commentAt ''revive:disable:r'' 5]\<rparr>
     [''r''] ''r'' = Some [mkInterval ''f.go'' ''r'' 5 MaxInt32]"
  by code_simp

subsection \<open>C2: the overlap test\<close>

text \<open>
  C2. A failure of a rule that has intervals is dropped by \<^verbatim>\<open>filterFailures\<close> exactly
  when, for one of the intervals of its rule, its start line lies in the interval or
  its end line lies in the interval, both bounds included. A failure that starts
  before and ends after each interval is kept, although its span contains them.
\<close>

theorem C2_overlap_test:
  fixes failure :: "'a Failure_scheme"
  assumes "failure \<in> set failures"
    and "dIntervals (Failure_RuleName failure) = Some intervals"
  shows "(failure \<notin> set (filterFailures failures dIntervals) \<longleftrightarrow>
            (\<exists>interval \<in> set intervals.
               (Line (From interval) \<le> Line (Start (Failure_Position failure)) \<and>
                Line (Start (Failure_Position failure)) \<le> Line (To interval)) \<or>
               (Line (From interval) \<le> Line (End (Failure_Position failure)) \<and>
                Line (End (Failure_Position failure)) \<le> Line (To interval)))) \<and>
         ((\<forall>interval \<in> set intervals.
             Line (Start (Failure_Position failure)) < Line (From interval) \<and>
             Line (To interval) < Line (End (Failure_Position failure))) \<longrightarrow>
          failure \<in> set (filterFailures failures dIntervals))"
  using assms by (auto simp: filterFailures_filter includeLoop_hits hits_def)

theorem C2_overlap_test_witness:
  "failureAt ''r'' 3 10 \<in>
     set (filterFailures [failureAt ''r'' 3 10, failureAt ''r'' 3 5]
            [''r'' \<mapsto> [mkInterval ''f.go'' ''r'' 5 8]]) \<and>
   failureAt ''r'' 3 5 \<notin>
     set (filterFailures [failureAt ''r'' 3 10, failureAt ''r'' 3 5]
            [''r'' \<mapsto> [mkInterval ''f.go'' ''r'' 5 8]])"
  using
    C2_overlap_test [of "failureAt ''r'' 3 10" "[failureAt ''r'' 3 10, failureAt ''r'' 3 5]"
      "[''r'' \<mapsto> [mkInterval ''f.go'' ''r'' 5 8]]" "[mkInterval ''f.go'' ''r'' 5 8]"]
    C2_overlap_test [of "failureAt ''r'' 3 5" "[failureAt ''r'' 3 10, failureAt ''r'' 3 5]"
      "[''r'' \<mapsto> [mkInterval ''f.go'' ''r'' 5 8]]" "[mkInterval ''f.go'' ''r'' 5 8]"]
  by (simp add: failureAt_def mkInterval_def)

subsection \<open>C3: pairing the events\<close>

text \<open>
  The claim C3 ends with: the intervals of a rule are non-overlapping and in ascending
  order. Two files whose comments are on increasing lines show that consecutive
  intervals can share a line: \<^verbatim>\<open>disable\<close> at line 3 followed by
  \<^verbatim>\<open>enable-next-line\<close> at line 4 gives the intervals from 3 to 5 and from 5 to the
  sentinel, and \<^verbatim>\<open>disable-next-line\<close> at line 5 followed by \<^verbatim>\<open>disable-line\<close> at
  line 6 gives the interval from 6 to 6 twice. When two comment groups are on one line
  the order can be lost altogether: \<^verbatim>\<open>disable-next-line\<close> and \<^verbatim>\<open>disable\<close>, both at
  line 5, give the interval from 6 to 6 followed by the interval from 5 to the
  sentinel.
\<close>

theorem C3_counterexample:
  "disabledIntervals
     \<lparr>file_Name = ''f.go'',
      file_Comments = [commentAt ''revive:disable:r'' 3, commentAt ''revive:enable-next-line:r'' 4]\<rparr>
     [''r''] ''r'' = Some [mkInterval ''f.go'' ''r'' 3 5, mkInterval ''f.go'' ''r'' 5 MaxInt32] \<and>
   \<not> ascending_disjoint [mkInterval ''f.go'' ''r'' 3 5, mkInterval ''f.go'' ''r'' 5 MaxInt32] \<and>
   disabledIntervals
     \<lparr>file_Name = ''f.go'',
      file_Comments =
        [commentAt ''revive:disable-next-line:r'' 5, commentAt ''revive:disable-line:r'' 6]\<rparr>
     [''r''] ''r'' = Some [mkInterval ''f.go'' ''r'' 6 6, mkInterval ''f.go'' ''r'' 6 6] \<and>
   \<not> ascending_disjoint [mkInterval ''f.go'' ''r'' 6 6, mkInterval ''f.go'' ''r'' 6 6] \<and>
   disabledIntervals
     \<lparr>file_Name = ''f.go'',
      file_Comments =
        [commentAt ''revive:disable-next-line:r'' 5, commentAt ''revive:disable:r'' 5]\<rparr>
     [''r''] ''r'' = Some [mkInterval ''f.go'' ''r'' 6 6, mkInterval ''f.go'' ''r'' 5 MaxInt32] \<and>
   \<not> ascending_touching [mkInterval ''f.go'' ''r'' 6 6, mkInterval ''f.go'' ''r'' 5 MaxInt32]"
  by code_simp

text \<open>
  C3, as amended. The intervals of a rule are its events paired by index: interval
  \<open>k\<close> starts at the line of event \<open>2k\<close> and ends at the line of event \<open>2k + 1\<close>,
  or at \<^verbatim>\<open>math.MaxInt32\<close> when that event does not exist. When the comment groups of
  the file are on strictly increasing lines below the sentinel, every interval starts
  no later than it ends and no interval starts before the end of the one before it;
  an interval may start on the line where the one before it ends.
\<close>

theorem C3_intervals_paired_ascending:
  "disabledIntervals f rules ruleName =
     map_option
       (\<lambda>evs.
          map (\<lambda>k. mkInterval (file_Name f) ruleName (position (evs ! (2 * k)))
                     (if 2 * k + 1 < length evs then position (evs ! (2 * k + 1)) else MaxInt32))
            [0 ..< (length evs + 1) div 2])
       (scanComments rules (file_Comments f) ruleName) \<and>
   (sorted_wrt (<) (map comment_Line (file_Comments f)) \<and>
    (\<forall>c \<in> set (file_Comments f). comment_Line c < MaxInt32) \<longrightarrow>
    (\<forall>intervals. disabledIntervals f rules ruleName = Some intervals \<longrightarrow>
       ascending_touching intervals))"
proof (intro conjI impI allI)
  show "disabledIntervals f rules ruleName =
     map_option
       (\<lambda>evs.
          map (\<lambda>k. mkInterval (file_Name f) ruleName (position (evs ! (2 * k)))
                     (if 2 * k + 1 < length evs then position (evs ! (2 * k + 1)) else MaxInt32))
            [0 ..< (length evs + 1) div 2])
       (scanComments rules (file_Comments f) ruleName)"
  proof (cases "scanComments rules (file_Comments f) ruleName")
    case None
    then show ?thesis
      by (simp add: disabledIntervals_def getEnabledDisabledIntervals_def)
  next
    case (Some evs)
    then show ?thesis
      using pairIntervals_index [of "file_Name f" ruleName evs]
      by (simp add: disabledIntervals_def getEnabledDisabledIntervals_Some)
  qed
next
  fix intervals
  assume lines: "sorted_wrt (<) (map comment_Line (file_Comments f)) \<and>
    (\<forall>c \<in> set (file_Comments f). comment_Line c < MaxInt32)"
    and some: "disabledIntervals f rules ruleName = Some intervals"
  define b where "b = (if file_Comments f = [] then MaxInt32 else comment_Line (hd (file_Comments f)))"
  have low: "\<forall>c \<in> set (file_Comments f). b \<le> comment_Line c \<and> comment_Line c < MaxInt32"
  proof (cases "file_Comments f")
    case Nil
    then show ?thesis by simp
  next
    case (Cons c cs)
    with lines show ?thesis by (auto simp: b_def)
  qed
  have "b \<le> MaxInt32"
    using low by (cases "file_Comments f") (auto simp: b_def)
  with lines low have inv: "events_sorted_upto (scanComments rules (file_Comments f)) MaxInt32"
    unfolding scanComments_def
    by (intro fold_handleComment_sorted [where b = b] events_sorted_upto_empty) auto
  from some obtain evs where evs: "scanComments rules (file_Comments f) ruleName = Some evs"
    and ivs: "intervals = pairIntervals (file_Name f) ruleName evs"
    by (auto simp: disabledIntervals_def getEnabledDisabledIntervals_def ruleIntervals_pair
        split: option.splits)
  from inv evs have "sorted (map position evs)" "\<forall>e \<in> set evs. position e \<le> MaxInt32"
    unfolding events_sorted_upto_def by blast+
  then show "ascending_touching intervals"
    unfolding ivs by (rule pairIntervals_ascending)
qed

theorem C3_intervals_paired_ascending_witness:
  "disabledIntervals
     \<lparr>file_Name = ''f.go'',
      file_Comments = [commentAt ''revive:disable:r'' 3, commentAt ''revive:enable-next-line:r'' 4]\<rparr>
     [''r''] ''r'' = Some [mkInterval ''f.go'' ''r'' 3 5, mkInterval ''f.go'' ''r'' 5 MaxInt32] \<and>
   ascending_touching [mkInterval ''f.go'' ''r'' 3 5, mkInterval ''f.go'' ''r'' 5 MaxInt32]"
proof -
  let ?f = "\<lparr>file_Name = ''f.go'',
      file_Comments = [commentAt ''revive:disable:r'' 3, commentAt ''revive:enable-next-line:r'' 4]\<rparr>"
  have h1: "sorted_wrt (<) (map comment_Line (file_Comments ?f)) \<and>
    (\<forall>c \<in> set (file_Comments ?f). comment_Line c < MaxInt32)"
    by (simp add: commentAt_def MaxInt32_def)
  have h2: "disabledIntervals ?f [''r''] ''r'' =
      Some [mkInterval ''f.go'' ''r'' 3 5, mkInterval ''f.go'' ''r'' 5 MaxInt32]"
    by code_simp
  from C3_intervals_paired_ascending [of ?f "[''r'']" "''r''", THEN conjunct2, rule_format, OF h1 h2] h2
  show ?thesis by simp
qed

subsection \<open>C4: \<^verbatim>\<open>enable-line\<close> on a rule without history\<close>

text \<open>
  C4. For a rule that has no toggle event yet, an \<^verbatim>\<open>enable-line\<close> or
  \<^verbatim>\<open>enable-next-line\<close> directive that names it (once) leaves exactly one event, a
  disabling one at the affected line: the enabling event is dropped, because the list
  is empty, and the reverting event is appended. The interval of the rule then runs
  from that line to the sentinel.
\<close>

theorem C4_enable_line_opens_interval:
  assumes "re_find (comment_Text c) = Some (str, ''enable'', modifier)"
    and "modifier = ''line'' \<or> modifier = ''next-line''"
    and "distinct (directiveNames rules (comment_Text c) str)"
    and "ruleName \<in> set (directiveNames rules (comment_Text c) str)"
    and "events_of m ruleName = []"
  shows "handleComment rules c m ruleName =
           Some [\<lparr>enabled = False,
                  position = (if modifier = ''line'' then comment_Line c else comment_Line c + 1)\<rparr>] \<and>
         getEnabledDisabledIntervals fname (handleComment rules c m) ruleName =
           Some [mkInterval fname ruleName
                   (if modifier = ''line'' then comment_Line c else comment_Line c + 1) MaxInt32]"
proof -
  have "handleComment rules c m ruleName =
          Some (rule_toggle modifier True (comment_Line c) (events_of m ruleName))"
    using assms(1,3,4) by (simp add: handleComment_directive handleRules_distinct)
  also have "rule_toggle modifier True (comment_Line c) (events_of m ruleName) =
          [\<lparr>enabled = False,
            position = (if modifier = ''line'' then comment_Line c else comment_Line c + 1)\<rparr>]"
    using assms(2,5) by (auto simp: rule_toggle_def toggle_enable_empty toggle_disable_empty)
  finally have ev: "handleComment rules c m ruleName =
      Some [\<lparr>enabled = False,
             position = (if modifier = ''line'' then comment_Line c else comment_Line c + 1)\<rparr>]" .
  from getEnabledDisabledIntervals_Some [of "handleComment rules c m" ruleName _ fname, OF ev] ev
  show ?thesis by simp
qed

theorem C4_enable_line_opens_interval_witness:
  "disabledIntervals
     \<lparr>file_Name = ''f.go'', file_Comments = [commentAt ''revive:enable-line:r'' 5]\<rparr>
     [''r'', ''q''] ''r'' = Some [mkInterval ''f.go'' ''r'' 5 MaxInt32] \<and>
   disabledIntervals
     \<lparr>file_Name = ''f.go'', file_Comments = [commentAt ''revive:enable-next-line:r'' 5]\<rparr>
     [''r'', ''q''] ''r'' = Some [mkInterval ''f.go'' ''r'' 6 MaxInt32]"
proof -
  let ?c = "commentAt ''revive:enable-line:r'' 5"
  have h1: "re_find (comment_Text ?c) = Some (''revive:enable-line:'', ''enable'', ''line'')"
    by code_simp
  have h3: "distinct (directiveNames [''r'', ''q''] (comment_Text ?c) ''revive:enable-line:'')"
    by code_simp
  have h4: "''r'' \<in> set (directiveNames [''r'', ''q''] (comment_Text ?c) ''revive:enable-line:'')"
    by code_simp
  have h5: "events_of Map.empty ''r'' = []"
    by (simp add: events_of_def)
  let ?d = "commentAt ''revive:enable-next-line:r'' 5"
  have g1: "re_find (comment_Text ?d) =
      Some (''revive:enable-next-line:'', ''enable'', ''next-line'')"
    by code_simp
  have g3: "distinct (directiveNames [''r'', ''q''] (comment_Text ?d) ''revive:enable-next-line:'')"
    by code_simp
  have g4: "''r'' \<in> set (directiveNames [''r'', ''q''] (comment_Text ?d) ''revive:enable-next-line:'')"
    by code_simp
  from C4_enable_line_opens_interval [OF h1 _ h3 h4 h5, of "''f.go''"]
    C4_enable_line_opens_interval [OF g1 _ g3 g4 h5, of "''f.go''"]
  show ?thesis
    by (simp add: disabledIntervals_def scanComments_def commentAt_def)
qed

subsection \<open>C5: files without directives\<close>

text \<open>
  C5. When no comment of the file matches the directive grammar, \<^verbatim>\<open>lint\<close> sends the
  failures of every rule, in the order of the rules and in the order each rule
  returned them, each with the name of the current rule where it had none and with
  the position of its node where it has one.
\<close>

theorem C5_lint_without_directives:
  assumes "\<forall>c \<in> set (file_Comments f). re_find (comment_Text c) = None"
  shows "lint ToFailurePosition f rules rulesConfig =
           concat (map (\<lambda>rule.
             map (\<lambda>failure.
               failure
                 \<lparr>Failure_RuleName :=
                    (if Failure_RuleName failure = '''' then rule_Name rule
                     else Failure_RuleName failure),
                  Failure_Position :=
                    (case Failure_Node failure of
                       None \<Rightarrow> Failure_Position failure
                     | Some (pos, endPos) \<Rightarrow> ToFailurePosition pos endPos f)\<rparr>)
               (rule_Apply rule f (rulesConfig (rule_Name rule)))) rules)"
proof -
  have "scanComments (map rule_Name rules) (file_Comments f) = Map.empty"
    using assms by (simp add: scanComments_def scanComments_no_directives)
  then have "disabledIntervals f (map rule_Name rules) = Map.empty"
    by (simp add: disabledIntervals_def getEnabledDisabledIntervals_def)
  then show ?thesis
    by (simp add: lint_def Let_def filterFailures_empty stampFailure_eq)
qed

theorem C5_lint_without_directives_witness:
  "lint examplePosition
     \<lparr>file_Name = ''f.go'', file_Comments = [commentAt ''an ordinary comment'' 3]\<rparr>
     exampleRules (\<lambda>name. ()) =
   [\<lparr>Failure_RuleName = ''a'', Failure_Node = Some (10, 20),
     Failure_Position = \<lparr>Start = \<lparr>Filename = ''f.go'', Line = 1\<rparr>,
                         End = \<lparr>Filename = ''f.go'', Line = 2\<rparr>\<rparr>\<rparr>,
    failureAt ''named'' 7 7]"
proof -
  let ?f = "\<lparr>file_Name = ''f.go'', file_Comments = [commentAt ''an ordinary comment'' 3]\<rparr>"
  have h: "\<forall>c \<in> set (file_Comments ?f). re_find (comment_Text c) = None"
    by code_simp
  from C5_lint_without_directives [OF h, of examplePosition exampleRules "\<lambda>name. ()"]
  show ?thesis
    by (simp add: exampleRules_def examplePosition_def failureAt_def)
qed

subsection \<open>C6: a directive without rule names\<close>

text \<open>
  C6. A directive whose list of rule names is empty is handled as the directive that
  names the rules passed to \<^verbatim>\<open>disabledIntervals\<close>: after it these rules are keys of
  the map, the entry of any other name is unchanged, and (when the names of the rules
  are distinct) the entry of each rule is what the directive naming that rule alone
  gives.
\<close>

theorem C6_empty_names_all_rules:
  assumes "re_find (comment_Text c) = Some (str, kw, modifier)"
    and "ruleNamesOf (comment_Text c) str = []"
  shows "handleComment rules c m =
           handleRules modifier (kw = ''enable'') (comment_Line c) rules m \<and>
         dom (handleComment rules c m) = dom m \<union> set rules \<and>
         (\<forall>n. n \<notin> set rules \<longrightarrow> handleComment rules c m n = m n) \<and>
         (distinct rules \<longrightarrow>
            (\<forall>n \<in> set rules.
               handleComment rules c m n =
                 handleRules modifier (kw = ''enable'') (comment_Line c) [n] m n))"
proof -
  have eq: "handleComment rules c m =
      handleRules modifier (kw = ''enable'') (comment_Line c) rules m"
    using assms by (simp add: handleComment_directive directiveNames_def)
  show ?thesis
    unfolding eq
    by (simp add: handleRules_dom handleRules_other handleRules_distinct handleRule_eq)
qed

theorem C6_empty_names_all_rules_witness:
  "dom (handleComment [''a'', ''b''] (commentAt ''revive:disable-next-line'' 10) Map.empty) =
     {''a'', ''b''} \<and>
   handleComment [''a'', ''b''] (commentAt ''revive:disable-next-line'' 10) Map.empty ''b'' =
     Some [\<lparr>enabled = False, position = 11\<rparr>, \<lparr>enabled = True, position = 11\<rparr>] \<and>
   handleComment [''a'', ''b''] (commentAt ''revive:disable-next-line'' 10) Map.empty ''c'' = None"
proof -
  let ?c = "commentAt ''revive:disable-next-line'' 10"
  have h1: "re_find (comment_Text ?c) =
      Some (''revive:disable-next-line'' @ [CHR 0x0A], ''disable'', ''next-line'')"
    by code_simp
  have h2: "ruleNamesOf (comment_Text ?c) (''revive:disable-next-line'' @ [CHR 0x0A]) = []"
    by code_simp
  have h3: "handleRules ''next-line'' (''disable'' = ''enable'') (comment_Line ?c) [''b''] Map.empty ''b'' =
      Some [\<lparr>enabled = False, position = 11\<rparr>, \<lparr>enabled = True, position = 11\<rparr>]"
    by code_simp
  note inst = C6_empty_names_all_rules [OF h1 h2, of "[''a'', ''b'']" Map.empty]
  have d: "dom (handleComment [''a'', ''b''] ?c Map.empty) = {''a'', ''b''}"
    using inst [THEN conjunct2, THEN conjunct1] by auto
  have o: "handleComment [''a'', ''b''] ?c Map.empty ''c'' = None"
    using inst [THEN conjunct2, THEN conjunct2, THEN conjunct1, rule_format, of "''c''"] by simp
  have b: "handleComment [''a'', ''b''] ?c Map.empty ''b'' =
      handleRules ''next-line'' (''disable'' = ''enable'') (comment_Line ?c) [''b''] Map.empty ''b''"
    using inst [THEN conjunct2, THEN conjunct2, THEN conjunct2, rule_format, of "''b''"] by simp
  from d o b h3 show ?thesis by simp
qed

subsection \<open>C7: a \<^verbatim>\<open>disable\<close> that is not closed\<close>

text \<open>
  The claim C7 says that a \<^verbatim>\<open>disable\<close> directive without modifier and without a
  later \<^verbatim>\<open>enable\<close> for the rule suppresses every failure of the rule that touches
  a line from the directive's line on. A later \<^verbatim>\<open>disable-line\<close> directive ends the
  suppression: its disabling event repeats the state and is dropped, its reverting
  event is appended and closes the interval. In the first file below the failure at
  line 10 is suppressed; the second file adds \<^verbatim>\<open>disable-line\<close> at line 8, and the
  failure is reported. The open interval ends at \<^verbatim>\<open>math.MaxInt32\<close>, so a failure that
  starts above the directive and ends beyond the sentinel is reported as well (third
  file).
\<close>

theorem C7_counterexample:
  "filterFailures [failureAt ''r'' 10 10]
     (disabledIntervals
        \<lparr>file_Name = ''f.go'',
         file_Comments =
           [commentAt ''revive:disable:r'' 2, commentAt ''revive:enable:r'' 3,
            commentAt ''revive:disable:r'' 5]\<rparr> [''r'']) = [] \<and>
   filterFailures [failureAt ''r'' 10 10]
     (disabledIntervals
        \<lparr>file_Name = ''f.go'',
         file_Comments =
           [commentAt ''revive:disable:r'' 2, commentAt ''revive:enable:r'' 3,
            commentAt ''revive:disable:r'' 5, commentAt ''revive:disable-line:r'' 8]\<rparr> [''r'']) =
     [failureAt ''r'' 10 10] \<and>
   filterFailures [failureAt ''r'' 3 2147483648]
     (disabledIntervals
        \<lparr>file_Name = ''f.go'', file_Comments = [commentAt ''revive:disable:r'' 5]\<rparr> [''r'']) =
     [failureAt ''r'' 3 2147483648]"
  by code_simp

text \<open>
  C7, as amended. Let a \<^verbatim>\<open>disable\<close> directive without modifier apply to a rule
  (once); let the directive hold for the rule when the scan reaches it (the rule is
  not suppressed, or is suppressed by a list of three or more events), and let no
  later comment of the file be a directive that applies to the rule. Then the last
  interval of the rule starts at the directive's line or before it and ends at
  \<^verbatim>\<open>math.MaxInt32\<close>; when the rule was not suppressed it starts at the directive's
  line; and every failure of the rule whose start line or end line lies between the
  directive's line and the sentinel is dropped by the filter.
\<close>

theorem C7_unclosed_disable:
  fixes failures :: "'a Failure_scheme list"
  assumes "file_Comments f = before @ c # later"
    and "re_find (comment_Text c) = Some (str, ''disable'', '''')"
    and "distinct (directiveNames rules (comment_Text c) str)"
    and "ruleName \<in> set (directiveNames rules (comment_Text c) str)"
    and "disableHolds (events_of (scanComments rules before) ruleName) (comment_Line c)"
    and "\<forall>c' \<in> set later. \<not> affects rules ruleName c'"
  shows "(\<exists>intervals from.
            from \<le> comment_Line c \<and>
            disabledIntervals f rules ruleName =
              Some (intervals @ [mkInterval (file_Name f) ruleName from MaxInt32])) \<and>
         (notSuppressed (events_of (scanComments rules before) ruleName) \<longrightarrow>
            disabledIntervals f rules ruleName =
              Some (ruleIntervals (file_Name f) ruleName
                      (events_of (scanComments rules before) ruleName) @
                    [mkInterval (file_Name f) ruleName (comment_Line c) MaxInt32])) \<and>
         (\<forall>failure \<in> set failures.
            Failure_RuleName failure = ruleName \<and>
            ((comment_Line c \<le> Line (Start (Failure_Position failure)) \<and>
              Line (Start (Failure_Position failure)) \<le> MaxInt32) \<or>
             (comment_Line c \<le> Line (End (Failure_Position failure)) \<and>
              Line (End (Failure_Position failure)) \<le> MaxInt32)) \<longrightarrow>
            failure \<notin> set (filterFailures failures (disabledIntervals f rules)))"
proof -
  let ?m0 = "scanComments rules before"
  let ?evs = "events_of ?m0 ruleName"
  let ?evs' = "toggle False (comment_Line c) ?evs"
  have scan: "scanComments rules (file_Comments f) =
      fold (handleComment rules) later (handleComment rules c ?m0)"
    by (simp add: scanComments_def assms(1))
  have "scanComments rules (file_Comments f) ruleName = handleComment rules c ?m0 ruleName"
    unfolding scan using assms(6) by (rule fold_handleComment_unaffected)
  also have "\<dots> = Some (rule_toggle '''' False (comment_Line c) ?evs)"
    using assms(2,3,4) by (simp add: handleComment_directive handleRules_distinct)
  also have "rule_toggle '''' False (comment_Line c) ?evs = ?evs'"
    by (simp add: rule_toggle_def)
  finally have ev: "scanComments rules (file_Comments f) ruleName = Some ?evs'" .
  have di: "disabledIntervals f rules ruleName =
      Some (pairIntervals (file_Name f) ruleName ?evs')"
    unfolding disabledIntervals_def
    using ev by (rule getEnabledDisabledIntervals_Some)
  from toggle_disable_holds [OF assms(5)]
  have odd: "odd (length ?evs')" and le: "position (last ?evs') \<le> comment_Line c"
    by simp_all
  have split: "pairIntervals (file_Name f) ruleName ?evs' =
      pairIntervals (file_Name f) ruleName (butlast ?evs') @
        [mkInterval (file_Name f) ruleName (position (last ?evs')) MaxInt32]"
    using odd by (rule pairIntervals_odd_last)
  have first: "\<exists>intervals from.
            from \<le> comment_Line c \<and>
            disabledIntervals f rules ruleName =
              Some (intervals @ [mkInterval (file_Name f) ruleName from MaxInt32])"
    using di split le by metis
  have second: "notSuppressed ?evs \<longrightarrow>
            disabledIntervals f rules ruleName =
              Some (ruleIntervals (file_Name f) ruleName ?evs @
                    [mkInterval (file_Name f) ruleName (comment_Line c) MaxInt32])"
  proof
    assume ns: "notSuppressed ?evs"
    then have "?evs' = ?evs @ [\<lparr>enabled = False, position = comment_Line c\<rparr>]"
      by (rule toggle_disable_notSuppressed)
    with di notSuppressed_even [OF ns]
    show "disabledIntervals f rules ruleName =
              Some (ruleIntervals (file_Name f) ruleName ?evs @
                    [mkInterval (file_Name f) ruleName (comment_Line c) MaxInt32])"
      by (simp add: pairIntervals_append_even ruleIntervals_pair)
  qed
  have third: "\<forall>failure \<in> set failures.
            Failure_RuleName failure = ruleName \<and>
            ((comment_Line c \<le> Line (Start (Failure_Position failure)) \<and>
              Line (Start (Failure_Position failure)) \<le> MaxInt32) \<or>
             (comment_Line c \<le> Line (End (Failure_Position failure)) \<and>
              Line (End (Failure_Position failure)) \<le> MaxInt32)) \<longrightarrow>
            failure \<notin> set (filterFailures failures (disabledIntervals f rules))"
  proof (intro ballI impI)
    fix failure :: "'a Failure_scheme"
    assume "failure \<in> set failures"
      and h: "Failure_RuleName failure = ruleName \<and>
        ((comment_Line c \<le> Line (Start (Failure_Position failure)) \<and>
          Line (Start (Failure_Position failure)) \<le> MaxInt32) \<or>
         (comment_Line c \<le> Line (End (Failure_Position failure)) \<and>
          Line (End (Failure_Position failure)) \<le> MaxInt32))"
    with le have "hits (Line (Start (Failure_Position failure)))
        (Line (End (Failure_Position failure)))
        (mkInterval (file_Name f) ruleName (position (last ?evs')) MaxInt32)"
      by (auto simp: hits_def mkInterval_def)
    with h di split show "failure \<notin> set (filterFailures failures (disabledIntervals f rules))"
      by (auto simp: filterFailures_filter includeLoop_hits)
  qed
  from first second third show ?thesis by blast
qed

theorem C7_unclosed_disable_witness:
  "disabledIntervals
     \<lparr>file_Name = ''f.go'',
      file_Comments = [commentAt ''revive:disable:r'' 5, commentAt ''an ordinary comment'' 7]\<rparr>
     [''r'', ''q''] ''r'' = Some [mkInterval ''f.go'' ''r'' 5 MaxInt32] \<and>
   failureAt ''r'' 7 9 \<notin>
     set (filterFailures [failureAt ''r'' 7 9, failureAt ''q'' 7 9]
       (disabledIntervals
          \<lparr>file_Name = ''f.go'',
           file_Comments = [commentAt ''revive:disable:r'' 5, commentAt ''an ordinary comment'' 7]\<rparr>
          [''r'', ''q''])) \<and>
   failureAt ''r'' 8 8 \<notin>
     set (filterFailures [failureAt ''r'' 8 8]
       (disabledIntervals
          \<lparr>file_Name = ''f.go'',
           file_Comments =
             [commentAt ''revive:disable:r'' 2, commentAt ''revive:enable:r'' 3,
              commentAt ''revive:disable:r'' 5, commentAt ''revive:disable:r'' 7]\<rparr>
          [''r'']))"
proof -
  let ?c = "commentAt ''revive:disable:r'' 5"
  let ?later = "[commentAt ''an ordinary comment'' 7]"
  let ?f = "\<lparr>file_Name = ''f.go'', file_Comments = [?c, commentAt ''an ordinary comment'' 7]\<rparr>"
  have h1: "file_Comments ?f = [] @ ?c # ?later" by simp
  have h2: "re_find (comment_Text ?c) = Some (''revive:disable:'', ''disable'', '''')"
    by code_simp
  have h3: "distinct (directiveNames [''r'', ''q''] (comment_Text ?c) ''revive:disable:'')"
    by code_simp
  have h4: "''r'' \<in> set (directiveNames [''r'', ''q''] (comment_Text ?c) ''revive:disable:'')"
    by code_simp
  have ns: "notSuppressed (events_of (scanComments [''r'', ''q''] []) ''r'')"
    by (simp add: scanComments_def events_of_def notSuppressed_def)
  then have h5: "disableHolds (events_of (scanComments [''r'', ''q''] []) ''r'') (comment_Line ?c)"
    by (simp add: disableHolds_def)
  have h6: "\<forall>c' \<in> set ?later. \<not> affects [''r'', ''q''] ''r'' c'"
    by code_simp
  have h7: "ruleIntervals ''f.go'' ''r'' (events_of (scanComments [''r'', ''q''] []) ''r'') = []"
    by (simp add: scanComments_def events_of_def ruleIntervals_def)
  note inst = C7_unclosed_disable [OF h1 h2 h3 h4 h5 h6,
      of "[failureAt ''r'' 7 9, failureAt ''q'' 7 9]"]
  have a: "disabledIntervals ?f [''r'', ''q''] ''r'' = Some [mkInterval ''f.go'' ''r'' 5 MaxInt32]"
    using inst [THEN conjunct2, THEN conjunct1, rule_format, OF ns] h7
    by (simp add: commentAt_def)
  have b: "failureAt ''r'' 7 9 \<notin>
     set (filterFailures [failureAt ''r'' 7 9, failureAt ''q'' 7 9]
       (disabledIntervals ?f [''r'', ''q'']))"
    using inst [THEN conjunct2, THEN conjunct2, rule_format, of "failureAt ''r'' 7 9"]
    by (simp add: failureAt_def commentAt_def MaxInt32_def)
  let ?before = "[commentAt ''revive:disable:r'' 2, commentAt ''revive:enable:r'' 3,
      commentAt ''revive:disable:r'' 5]"
  let ?d = "commentAt ''revive:disable:r'' 7"
  let ?g = "\<lparr>file_Name = ''f.go'', file_Comments = ?before @ [?d]\<rparr>"
  have g1: "file_Comments ?g = ?before @ ?d # []" by simp
  have g2: "re_find (comment_Text ?d) = Some (''revive:disable:'', ''disable'', '''')"
    by code_simp
  have g3: "distinct (directiveNames [''r''] (comment_Text ?d) ''revive:disable:'')"
    by code_simp
  have g4: "''r'' \<in> set (directiveNames [''r''] (comment_Text ?d) ''revive:disable:'')"
    by code_simp
  have g5: "disableHolds (events_of (scanComments [''r''] ?before) ''r'') (comment_Line ?d)"
    by code_simp
  have g6: "\<forall>c' \<in> set []. \<not> affects [''r''] ''r'' c'"
    by simp
  have c: "failureAt ''r'' 8 8 \<notin>
     set (filterFailures [failureAt ''r'' 8 8] (disabledIntervals ?g [''r'']))"
    using C7_unclosed_disable [OF g1 g2 g3 g4 g5 g6, of "[failureAt ''r'' 8 8]",
        THEN conjunct2, THEN conjunct2, rule_format, of "failureAt ''r'' 8 8"]
    by (simp add: failureAt_def commentAt_def MaxInt32_def)
  from a b c show ?thesis by simp
qed

subsection \<open>C8: \<^verbatim>\<open>disable-line\<close>\<close>

text \<open>
  The claim C8 says that \<^verbatim>\<open>disable-line\<close> at line \<open>L\<close> suppresses exactly the failures
  whose range touches line \<open>L\<close>, and leaves the adjacent lines alone. A failure from
  line 4 to line 6 touches line 5 and is still reported, since neither of its ends is
  on line 5. And for a rule that is suppressed when the directive is scanned, the
  directive ends the suppression: the failure at line 6 is suppressed in the second
  file below and reported in the third, which adds \<^verbatim>\<open>disable-line\<close> at line 5.
\<close>

theorem C8_counterexample:
  "filterFailures [failureAt ''r'' 4 6]
     (disabledIntervals
        \<lparr>file_Name = ''f.go'', file_Comments = [commentAt ''revive:disable-line:r'' 5]\<rparr>
        [''r'']) = [failureAt ''r'' 4 6] \<and>
   filterFailures [failureAt ''r'' 6 6]
     (disabledIntervals
        \<lparr>file_Name = ''f.go'',
         file_Comments =
           [commentAt ''revive:disable:r'' 1, commentAt ''revive:enable:r'' 2,
            commentAt ''revive:disable:r'' 3]\<rparr> [''r'']) = [] \<and>
   filterFailures [failureAt ''r'' 6 6]
     (disabledIntervals
        \<lparr>file_Name = ''f.go'',
         file_Comments =
           [commentAt ''revive:disable:r'' 1, commentAt ''revive:enable:r'' 2,
            commentAt ''revive:disable:r'' 3, commentAt ''revive:disable-line:r'' 5]\<rparr> [''r'']) =
     [failureAt ''r'' 6 6]"
  by code_simp

text \<open>
  C8, as amended. Let a \<^verbatim>\<open>disable-line\<close> directive at line \<open>L\<close> apply to rules (each
  once) that are not suppressed when the scan reaches it. Then it appends two events
  at line \<open>L\<close> to each of these rules, a disabling and an enabling one, which add the
  interval from \<open>L\<close> to \<open>L\<close>; the events of every other rule are unchanged; and the
  failures reported with the intervals after the directive are those reported with
  the intervals before it, without the failures of these rules whose start line or end
  line is \<open>L\<close>.
\<close>

theorem C8_disable_line:
  fixes failures :: "'a Failure_scheme list"
  assumes "re_find (comment_Text c) = Some (str, ''disable'', ''line'')"
    and "distinct (directiveNames rules (comment_Text c) str)"
    and "\<forall>n \<in> set (directiveNames rules (comment_Text c) str). notSuppressed (events_of m n)"
  shows "(\<forall>n \<in> set (directiveNames rules (comment_Text c) str).
            handleComment rules c m n =
              Some (events_of m n @
                    [\<lparr>enabled = False, position = comment_Line c\<rparr>,
                     \<lparr>enabled = True, position = comment_Line c\<rparr>]) \<and>
            getEnabledDisabledIntervals fname (handleComment rules c m) n =
              Some (ruleIntervals fname n (events_of m n) @
                    [mkInterval fname n (comment_Line c) (comment_Line c)])) \<and>
         (\<forall>n. n \<notin> set (directiveNames rules (comment_Text c) str) \<longrightarrow>
            handleComment rules c m n = m n) \<and>
         filterFailures failures (getEnabledDisabledIntervals fname (handleComment rules c m)) =
           filter (\<lambda>failure.
              \<not> (Failure_RuleName failure \<in> set (directiveNames rules (comment_Text c) str) \<and>
                 (Line (Start (Failure_Position failure)) = comment_Line c \<or>
                  Line (End (Failure_Position failure)) = comment_Line c)))
             (filterFailures failures (getEnabledDisabledIntervals fname m))"
proof (intro conjI ballI allI impI)
  fix n
  assume n: "n \<in> set (directiveNames rules (comment_Text c) str)"
  with assms(3) have ns: "notSuppressed (events_of m n)" by blast
  from rule_toggle_disable_line [OF ns, of "''line''" "comment_Line c"] n assms(1,2)
  show ev: "handleComment rules c m n =
      Some (events_of m n @
            [\<lparr>enabled = False, position = comment_Line c\<rparr>,
             \<lparr>enabled = True, position = comment_Line c\<rparr>])"
    by (simp add: handleComment_directive handleRules_distinct)
  show "getEnabledDisabledIntervals fname (handleComment rules c m) n =
      Some (ruleIntervals fname n (events_of m n) @
            [mkInterval fname n (comment_Line c) (comment_Line c)])"
    using notSuppressed_even [OF ns]
      getEnabledDisabledIntervals_Some [of "handleComment rules c m" n _ fname, OF ev]
    by (simp add: pairIntervals_append_even ruleIntervals_pair)
next
  fix n
  assume "n \<notin> set (directiveNames rules (comment_Text c) str)"
  with assms(1) show "handleComment rules c m n = m n"
    by (simp add: handleComment_directive handleRules_other)
next
  from line_directive_filter [OF assms(1) _ assms(2,3), of failures fname]
  show "filterFailures failures (getEnabledDisabledIntervals fname (handleComment rules c m)) =
           filter (\<lambda>failure.
              \<not> (Failure_RuleName failure \<in> set (directiveNames rules (comment_Text c) str) \<and>
                 (Line (Start (Failure_Position failure)) = comment_Line c \<or>
                  Line (End (Failure_Position failure)) = comment_Line c)))
             (filterFailures failures (getEnabledDisabledIntervals fname m))"
    by simp
qed

theorem C8_disable_line_witness:
  "filterFailures
     [failureAt ''r'' 4 4, failureAt ''r'' 5 5, failureAt ''r'' 6 6, failureAt ''r'' 3 5,
      failureAt ''r'' 4 6, failureAt ''q'' 5 5]
     (getEnabledDisabledIntervals ''f.go''
        (handleComment [''r'', ''q''] (commentAt ''revive:disable-line:r'' 5) Map.empty)) =
   [failureAt ''r'' 4 4, failureAt ''r'' 6 6, failureAt ''r'' 4 6, failureAt ''q'' 5 5]"
proof -
  let ?c = "commentAt ''revive:disable-line:r'' 5"
  have h1: "re_find (comment_Text ?c) = Some (''revive:disable-line:'', ''disable'', ''line'')"
    by code_simp
  have n: "directiveNames [''r'', ''q''] (comment_Text ?c) ''revive:disable-line:'' = [''r'']"
    by code_simp
  have h2: "distinct (directiveNames [''r'', ''q''] (comment_Text ?c) ''revive:disable-line:'')"
    unfolding n by simp
  have h3: "\<forall>n \<in> set (directiveNames [''r'', ''q''] (comment_Text ?c) ''revive:disable-line:'').
      notSuppressed (events_of Map.empty n)"
    by (simp add: events_of_def notSuppressed_def)
  have e: "getEnabledDisabledIntervals ''f.go'' Map.empty = Map.empty"
    by (simp add: getEnabledDisabledIntervals_def)
  from C8_disable_line [OF h1 h2 h3, THEN conjunct2, THEN conjunct2,
      of "[failureAt ''r'' 4 4, failureAt ''r'' 5 5, failureAt ''r'' 6 6, failureAt ''r'' 3 5,
           failureAt ''r'' 4 6, failureAt ''q'' 5 5]" "''f.go''"]
  show ?thesis
    unfolding n e filterFailures_empty
    by (simp add: failureAt_def commentAt_def)
qed

subsection \<open>C9: \<^verbatim>\<open>disable-next-line\<close>\<close>

text \<open>
  The claim C9 says that \<^verbatim>\<open>disable-next-line\<close> at line \<open>L\<close> suppresses exactly the
  failures whose range touches line \<open>L + 1\<close>, and affects no other line. A failure
  from line 10 to line 12 touches line 11 and is still reported after the directive at
  line 10. And for a rule that is suppressed when the directive is scanned, the
  directive ends the suppression: the failure at line 8 is suppressed in the second
  file below and reported in the third, which adds \<^verbatim>\<open>disable-next-line\<close> at
  line 5.
\<close>

theorem C9_counterexample:
  "filterFailures [failureAt ''r'' 10 12]
     (disabledIntervals
        \<lparr>file_Name = ''f.go'', file_Comments = [commentAt ''revive:disable-next-line:r'' 10]\<rparr>
        [''r'']) = [failureAt ''r'' 10 12] \<and>
   filterFailures [failureAt ''r'' 8 8]
     (disabledIntervals
        \<lparr>file_Name = ''f.go'',
         file_Comments =
           [commentAt ''revive:disable:r'' 1, commentAt ''revive:enable:r'' 2,
            commentAt ''revive:disable:r'' 3]\<rparr> [''r'']) = [] \<and>
   filterFailures [failureAt ''r'' 8 8]
     (disabledIntervals
        \<lparr>file_Name = ''f.go'',
         file_Comments =
           [commentAt ''revive:disable:r'' 1, commentAt ''revive:enable:r'' 2,
            commentAt ''revive:disable:r'' 3, commentAt ''revive:disable-next-line:r'' 5]\<rparr>
        [''r'']) = [failureAt ''r'' 8 8]"
  by code_simp

text \<open>
  C9, as amended. Let a \<^verbatim>\<open>disable-next-line\<close> directive at line \<open>L\<close> apply to rules
  (each once) that are not suppressed when the scan reaches it. Then it appends two
  events at line \<open>L + 1\<close> to each of these rules, a disabling and an enabling one,
  which add the interval from \<open>L + 1\<close> to \<open>L + 1\<close>; the events of every other rule are
  unchanged; and the failures reported with the intervals after the directive are
  those reported with the intervals before it, without the failures of these rules
  whose start line or end line is \<open>L + 1\<close>.
\<close>

theorem C9_disable_next_line:
  fixes failures :: "'a Failure_scheme list"
  assumes "re_find (comment_Text c) = Some (str, ''disable'', ''next-line'')"
    and "distinct (directiveNames rules (comment_Text c) str)"
    and "\<forall>n \<in> set (directiveNames rules (comment_Text c) str). notSuppressed (events_of m n)"
  shows "(\<forall>n \<in> set (directiveNames rules (comment_Text c) str).
            handleComment rules c m n =
              Some (events_of m n @
                    [\<lparr>enabled = False, position = comment_Line c + 1\<rparr>,
                     \<lparr>enabled = True, position = comment_Line c + 1\<rparr>]) \<and>
            getEnabledDisabledIntervals fname (handleComment rules c m) n =
              Some (ruleIntervals fname n (events_of m n) @
                    [mkInterval fname n (comment_Line c + 1) (comment_Line c + 1)])) \<and>
         (\<forall>n. n \<notin> set (directiveNames rules (comment_Text c) str) \<longrightarrow>
            handleComment rules c m n = m n) \<and>
         filterFailures failures (getEnabledDisabledIntervals fname (handleComment rules c m)) =
           filter (\<lambda>failure.
              \<not> (Failure_RuleName failure \<in> set (directiveNames rules (comment_Text c) str) \<and>
                 (Line (Start (Failure_Position failure)) = comment_Line c + 1 \<or>
                  Line (End (Failure_Position failure)) = comment_Line c + 1)))
             (filterFailures failures (getEnabledDisabledIntervals fname m))"
proof (intro conjI ballI allI impI)
  fix n
  assume n: "n \<in> set (directiveNames rules (comment_Text c) str)"
  with assms(3) have ns: "notSuppressed (events_of m n)" by blast
  from rule_toggle_disable_line [OF ns, of "''next-line''" "comment_Line c"] n assms(1,2)
  show ev: "handleComment rules c m n =
      Some (events_of m n @
            [\<lparr>enabled = False, position = comment_Line c + 1\<rparr>,
             \<lparr>enabled = True, position = comment_Line c + 1\<rparr>])"
    by (simp add: handleComment_directive handleRules_distinct)
  show "getEnabledDisabledIntervals fname (handleComment rules c m) n =
      Some (ruleIntervals fname n (events_of m n) @
            [mkInterval fname n (comment_Line c + 1) (comment_Line c + 1)])"
    using notSuppressed_even [OF ns]
      getEnabledDisabledIntervals_Some [of "handleComment rules c m" n _ fname, OF ev]
    by (simp add: pairIntervals_append_even ruleIntervals_pair)
next
  fix n
  assume "n \<notin> set (directiveNames rules (comment_Text c) str)"
  with assms(1) show "handleComment rules c m n = m n"
    by (simp add: handleComment_directive handleRules_other)
next
  from line_directive_filter [OF assms(1) _ assms(2,3), of failures fname]
  show "filterFailures failures (getEnabledDisabledIntervals fname (handleComment rules c m)) =
           filter (\<lambda>failure.
              \<not> (Failure_RuleName failure \<in> set (directiveNames rules (comment_Text c) str) \<and>
                 (Line (Start (Failure_Position failure)) = comment_Line c + 1 \<or>
                  Line (End (Failure_Position failure)) = comment_Line c + 1)))
             (filterFailures failures (getEnabledDisabledIntervals fname m))"
    by simp
qed

theorem C9_disable_next_line_witness:
  "filterFailures
     [failureAt ''a'' 10 10, failureAt ''a'' 11 11, failureAt ''b'' 11 11, failureAt ''b'' 12 12,
      failureAt ''a'' 10 12, failureAt ''c'' 11 11]
     (getEnabledDisabledIntervals ''f.go''
        (handleComment [''a'', ''b''] (commentAt ''revive:disable-next-line'' 10) Map.empty)) =
   [failureAt ''a'' 10 10, failureAt ''b'' 12 12, failureAt ''a'' 10 12, failureAt ''c'' 11 11]"
proof -
  let ?c = "commentAt ''revive:disable-next-line'' 10"
  let ?str = "''revive:disable-next-line'' @ [CHR 0x0A]"
  have h1: "re_find (comment_Text ?c) = Some (?str, ''disable'', ''next-line'')"
    by code_simp
  have n: "directiveNames [''a'', ''b''] (comment_Text ?c) ?str = [''a'', ''b'']"
    by code_simp
  have h2: "distinct (directiveNames [''a'', ''b''] (comment_Text ?c) ?str)"
    unfolding n by simp
  have h3: "\<forall>n \<in> set (directiveNames [''a'', ''b''] (comment_Text ?c) ?str).
      notSuppressed (events_of Map.empty n)"
    by (simp add: events_of_def notSuppressed_def)
  have e: "getEnabledDisabledIntervals ''f.go'' Map.empty = Map.empty"
    by (simp add: getEnabledDisabledIntervals_def)
  from C9_disable_next_line [OF h1 h2 h3, THEN conjunct2, THEN conjunct2,
      of "[failureAt ''a'' 10 10, failureAt ''a'' 11 11, failureAt ''b'' 11 11, failureAt ''b'' 12 12,
           failureAt ''a'' 10 12, failureAt ''c'' 11 11]" "''f.go''"]
  show ?thesis
    unfolding n e filterFailures_empty
    by (simp add: failureAt_def commentAt_def)
qed

subsection \<open>C10: a failed re-evaluation\<close>

text \<open>
  C10. When the expression was rendered and \<^verbatim>\<open>types.Eval\<close> returns an error,
  \<^verbatim>\<open>IsUntypedConst\<close> returns the empty type name and \<^verbatim>\<open>false\<close>: it neither panics
  nor hands the error to its caller.
\<close>

theorem C10_eval_failure_recovered:
  "Fprint expr = Inr exprStr \<Longrightarrow> Eval expr exprStr = Inl err \<Longrightarrow>
   IsUntypedConst Fprint Eval expr = Inr ('''', False)"
  by (simp add: IsUntypedConst_def Render_def)

theorem C10_eval_failure_recovered_witness:
  "IsUntypedConst (\<lambda>x::nat. (Inr ''1 + x'' :: unit + string))
     (\<lambda>x s. (Inl ''undefined: x'' :: string + go_Type)) 0 = Inr ('''', False)"
  using C10_eval_failure_recovered [of "\<lambda>x::nat. (Inr ''1 + x'' :: unit + string)" 0 "''1 + x''"
      "\<lambda>x s. (Inl ''undefined: x'' :: string + go_Type)" "''undefined: x''"]
  by simp

end
